theory Spec2Isabelle
  imports Main "HOL-Library.Word" "HOL-Library.Sublist"
begin

section \<open>The network subsystem of webdavfs (mount.tproj/webdav_network.c)\<close>

text \<open>
  A shallow embedding of the functions of \<^verbatim>\<open>webdav_network.c\<close> that the
  specification's claims are about: the header lexers, the DAV-level parser, the
  status-to-errno table, the SSL error handler, the URL builder, the three
  transaction variants with their stream-open procedure, and \<^verbatim>\<open>network_unlock\<close>.
\<close>

subsection \<open>Error numbers\<close>

text \<open>
  The C functions return an \<^verbatim>\<open>int\<close>: 0 for success, an errno value otherwise.
  The values below are those of Darwin's \<^verbatim>\<open>sys/errno.h\<close>, which the source
  includes; only their being pairwise distinct and different from 0 matters here.
\<close>

type_synonym errno = int

definition EPERM :: errno where "EPERM = 1"
definition ENOENT :: errno where "ENOENT = 2"
definition EIO :: errno where "EIO = 5"
definition ENXIO :: errno where "ENXIO = 6"
definition EBUSY :: errno where "EBUSY = 16"
definition EINVAL :: errno where "EINVAL = 22"
definition ENOSPC :: errno where "ENOSPC = 28"
definition EPIPE :: errno where "EPIPE = 32"
definition EAGAIN :: errno where "EAGAIN = 35"
definition ENAMETOOLONG :: errno where "ENAMETOOLONG = 63"
definition EAUTH :: errno where "EAUTH = 80"
definition ECANCELED :: errno where "ECANCELED = 89"

lemmas errno_defs =
  EPERM_def ENOENT_def EIO_def ENXIO_def EBUSY_def EINVAL_def ENOSPC_def EPIPE_def
  EAGAIN_def ENAMETOOLONG_def EAUTH_def ECANCELED_def

subsection \<open>translate_status_to_error\<close>

text \<open>
  \<^verbatim>\<open>statusCode\<close> is a \<^verbatim>\<open>UInt32\<close>; the outer switch is on
  \<^verbatim>\<open>statusCode / 100\<close>. In the inner switch the arm for 414 assigns
  \<^verbatim>\<open>ENAMETOOLONG\<close> and, having no \<^verbatim>\<open>break\<close>, runs on into the arm of 423
  and 424, which assigns \<^verbatim>\<open>EBUSY\<close>: the two assignments are kept in that order.
\<close>

definition client_error_4xx :: "32 word \<Rightarrow> errno" where
  "client_error_4xx statusCode =
     (if statusCode = 401 \<or> statusCode = 407 then EAUTH
      else if statusCode = 402 \<or> statusCode = 403 then EPERM
      else if statusCode = 404 \<or> statusCode = 409 \<or> statusCode = 410 then ENOENT
      else if statusCode = 414 then
        (let result = ENAMETOOLONG; result = EBUSY in result)
      else if statusCode = 423 \<or> statusCode = 424 then EBUSY
      else EINVAL)"

definition translate_status_to_error :: "32 word \<Rightarrow> errno" where
  "translate_status_to_error statusCode =
     (let range = statusCode div 100 in
      if range = 1 then ENOENT
      else if range = 2 then 0
      else if range = 3 then ENOENT
      else if range = 4 then client_error_4xx statusCode
      else if range = 5 then (if statusCode = 507 then ENOSPC else ENOENT)
      else EIO)"

subsection \<open>The header lexers: SkipCodedURL, SkipToken, SkipLWS\<close>

text \<open>
  A C string is a list of characters; a pointer into it is the suffix that starts at
  the pointer. The terminating NUL is the end of the list, and a NUL character inside
  the list terminates the string as well: \<open>cur\<close> is what \<^verbatim>\<open>*bytes\<close> reads.
\<close>

definition NUL :: char where "NUL = CHR 0x00"
definition HT :: char where "HT = CHR 0x09"
definition LF :: char where "LF = CHR 0x0A"
definition CR :: char where "CR = CHR 0x0D"
definition SP :: char where "SP = CHR 0x20"

definition cur :: "string \<Rightarrow> char" where
  "cur bytes = (case bytes of [] \<Rightarrow> NUL | c # _ \<Rightarrow> c)"

fun SkipCodedURL :: "string \<Rightarrow> string" where
  "SkipCodedURL [] = []"
| "SkipCodedURL (c # bytes) =
     (if c \<noteq> NUL \<and> c \<noteq> CHR ''>'' then SkipCodedURL bytes else c # bytes)"

text \<open>The case labels of the switch in \<^verbatim>\<open>SkipToken\<close>: DEL and the separators.\<close>

definition token_switch_labels :: "char list" where
  "token_switch_labels =
     [CHR 0x7F, CHR ''('', CHR '')'', CHR ''<'', CHR ''>'', CHR ''@'', CHR '','', CHR '';'',
      CHR '':'', CHR 0x5C, CHR 0x22, CHR ''/'', CHR ''['', CHR '']'', CHR ''?'', CHR ''='',
      CHR ''{'', CHR ''}'', CHR 0x20, CHR 0x09]"

fun SkipToken :: "string \<Rightarrow> string" where
  "SkipToken [] = []"
| "SkipToken (c # bytes) =
     (if c = NUL then c # bytes
      else if (of_char c :: nat) \<le> 31 then c # bytes
      else if c \<in> set token_switch_labels then c # bytes
      else SkipToken bytes)"

fun SkipLWS :: "string \<Rightarrow> string" where
  "SkipLWS [] = []"
| "SkipLWS (c # bytes) =
     (if c = NUL then c # bytes
      else if c = SP \<or> c = HT then SkipLWS bytes
      else if c = CR then
        (case bytes of
           c1 # c2 # rest \<Rightarrow>
             if c1 = LF \<and> (c2 = SP \<or> c2 = HT) then SkipLWS rest else c # bytes
         | _ \<Rightarrow> c # bytes)
      else c # bytes)"

text \<open>
  The grammar of RFC 2616, section 2.2, in the specification's words: the control
  characters are the octets 0 to 31 and 127, the separators are the nineteen characters
  listed, and a unit of linear white space that the lexer may pass is a SP, an HT, or a
  CRLF followed by a SP or an HT.
\<close>

definition is_CTL :: "char \<Rightarrow> bool" where
  "is_CTL c = ((of_char c :: nat) \<le> 31 \<or> (of_char c :: nat) = 127)"

definition separators :: "char list" where
  "separators = [CHR ''('', CHR '')'', CHR ''<'', CHR ''>'', CHR ''@'', CHR '','', CHR '';'',
      CHR '':'', CHR 0x5C, CHR 0x22, CHR ''/'', CHR ''['', CHR '']'', CHR ''?'', CHR ''='',
      CHR ''{'', CHR ''}'', SP, HT]"

definition lws_units :: "string list" where
  "lws_units = [[SP], [HT], [CR, LF, SP], [CR, LF, HT]]"

subsection \<open>ParseDAVLevel\<close>

text \<open>
  A response message, as far as this file reads it: the status code and the header
  fields. \<open>CFHTTPMessageCopyHeaderFieldValue\<close> returns the value of the named
  header, or NULL (\<open>None\<close>) when the message has no such header.
\<close>

record CFHTTPMessage =
  responseStatusCode :: nat
  headerFields :: "(string \<times> string) list"

definition CFHTTPMessageCopyHeaderFieldValue :: "CFHTTPMessage \<Rightarrow> string \<Rightarrow> string option" where
  "CFHTTPMessageCopyHeaderFieldValue message name = map_of (headerFields message) name"

text \<open>
  One round of the main loop of \<^verbatim>\<open>ParseDAVLevel\<close>, from the test for
  \<^verbatim>\<open>'<'\<close> to the end of the value: a Coded-URL is skipped, a token is measured
  (\<^verbatim>\<open>field_value - token\<close> is the number of characters \<^verbatim>\<open>SkipToken\<close> passed)
  and raises the level when it is the one character 1 or 2.
\<close>

definition dav_value :: "int \<Rightarrow> string \<Rightarrow> int \<times> string" where
  "dav_value dav_level field_value =
     (if cur field_value = CHR ''<'' then
        (let field_value = tl field_value;
             field_value = SkipCodedURL field_value
         in (dav_level, if cur field_value \<noteq> NUL then tl field_value else field_value))
      else
        (let token = field_value;
             field_value = SkipToken field_value
         in (if length token - length field_value = 1 then
               (if cur token = CHR ''1'' \<and> dav_level < 1 then 1
                else if cur token = CHR ''2'' \<and> dav_level < 2 then 2
                else dav_level)
             else dav_level,
             field_value)))"

lemma length_SkipLWS: "length (SkipLWS bytes) \<le> length bytes"
proof (induction bytes rule: SkipLWS.induct)
  case 1
  then show ?case by simp
next
  case (2 c bytes)
  then show ?case
    by (subst SkipLWS.simps) (auto simp del: SkipLWS.simps split: list.splits)
qed

lemma length_SkipToken: "length (SkipToken bytes) \<le> length bytes"
  by (induction bytes rule: SkipToken.induct) auto

lemma length_SkipCodedURL: "length (SkipCodedURL bytes) \<le> length bytes"
  by (induction bytes rule: SkipCodedURL.induct) auto

lemma length_dav_value: "length (snd (dav_value dav_level field_value)) \<le> length field_value"
proof (cases "cur field_value = CHR ''<''")
  case True
  have "length (SkipCodedURL (tl field_value)) \<le> length (tl field_value)"
    by (rule length_SkipCodedURL)
  then have "length (SkipCodedURL (tl field_value)) \<le> length field_value"
    by simp
  moreover have "length (tl (SkipCodedURL (tl field_value))) \<le> length (SkipCodedURL (tl field_value))"
    by simp
  ultimately show ?thesis using True by (simp add: dav_value_def Let_def del: length_tl)
next
  case False
  then show ?thesis by (simp add: dav_value_def Let_def length_SkipToken)
qed

text \<open>
  The main loop of \<^verbatim>\<open>ParseDAVLevel\<close>. It ends at the end of the string, and it
  breaks when a value is followed by something other than a comma; after a comma it
  skips every further comma and goes round again.
\<close>

function parse_dav_values :: "int \<Rightarrow> string \<Rightarrow> int" where
  "parse_dav_values dav_level field_value =
     (if cur field_value = NUL then dav_level
      else if cur (SkipLWS field_value) = NUL then dav_level
      else
        (case dav_value dav_level (SkipLWS field_value) of
           (dav_level', after_value) \<Rightarrow>
             if cur (SkipLWS after_value) = NUL then dav_level'
             else if cur (SkipLWS after_value) \<noteq> CHR '','' then dav_level'
             else parse_dav_values dav_level'
                    (dropWhile (\<lambda>c. c = CHR '','') (SkipLWS after_value))))"
  by pat_completeness auto
termination
proof (relation "measure (\<lambda>(dav_level, field_value). length field_value)")
  show "wf (measure (\<lambda>(dav_level, field_value). length field_value))"
    by simp
next
  fix dav_level :: int and field_value :: string and dav_level' :: int and after_value :: string
  assume pair: "(dav_level', after_value) = dav_value dav_level (SkipLWS field_value)"
    and comma: "\<not> cur (SkipLWS after_value) \<noteq> CHR '','' "
  have after: "after_value = snd (dav_value dav_level (SkipLWS field_value))"
    using pair by (metis snd_conv)
  obtain rest where rest: "SkipLWS after_value = CHR '','' # rest"
    using comma by (cases "SkipLWS after_value") (auto simp: cur_def NUL_def)
  have "length (dropWhile (\<lambda>c. c = CHR '','') (SkipLWS after_value)) \<le> length rest"
    by (simp add: rest length_dropWhile_le)
  also have "\<dots> < length (SkipLWS after_value)"
    by (simp add: rest)
  also have "\<dots> \<le> length after_value"
    by (rule length_SkipLWS)
  also have "\<dots> \<le> length (SkipLWS field_value)"
    unfolding after by (rule length_dav_value)
  also have "\<dots> \<le> length field_value"
    by (rule length_SkipLWS)
  finally show "((dav_level', dropWhile (\<lambda>c. c = CHR '','') (SkipLWS after_value)),
        (dav_level, field_value)) \<in> measure (\<lambda>(dav_level, field_value). length field_value)"
    by simp
qed

text \<open>
  \<^verbatim>\<open>ParseDAVLevel\<close> starts from level 0, copies the DAV header (if any) and gets
  its C string: through \<^verbatim>\<open>CFStringGetCStringPtr\<close> when the string has one
  (\<open>has_cstring_ptr\<close>), else by \<^verbatim>\<open>CFStringGetCString\<close> into a buffer of 4096
  bytes, which fails when the value and its NUL do not fit.
\<close>

definition ParseDAVLevel :: "bool \<Rightarrow> CFHTTPMessage \<Rightarrow> int" where
  "ParseDAVLevel has_cstring_ptr responsePropertyRef =
     (case CFHTTPMessageCopyHeaderFieldValue responsePropertyRef ''DAV'' of
        None \<Rightarrow> 0
      | Some davHeaderRef \<Rightarrow>
          (let field_value =
                 (if has_cstring_ptr then Some davHeaderRef
                  else if length davHeaderRef < 4096 then Some davHeaderRef
                  else None)
           in case field_value of
                None \<Rightarrow> 0
              | Some field_value \<Rightarrow> parse_dav_values 0 field_value))"

text \<open>
  A DAV header in the words of RFC 2518, section 9.1, and of the list rule of RFC 2616,
  section 2.1: elements separated by commas, each element being linear white space, then
  a token, a Coded-URL or nothing (the list rule allows null elements), then linear
  white space. White space is given as its units (\<open>lws_units\<close>). The level the
  specification asks for is the greatest of the levels 1 and 2 among the tokens that
  are the single character 1 or 2; every other token, every Coded-URL and every null
  element counts 0.
\<close>

datatype dav_extend = Token string | Coded_URL string

fun extend_text :: "dav_extend \<Rightarrow> string" where
  "extend_text (Token t) = t"
| "extend_text (Coded_URL u) = CHR ''<'' # u @ [CHR ''>'']"

fun extend_level :: "dav_extend \<Rightarrow> int" where
  "extend_level (Token t) = (if t = [CHR ''1''] then 1 else if t = [CHR ''2''] then 2 else 0)"
| "extend_level (Coded_URL u) = 0"

fun well_formed_extend :: "dav_extend \<Rightarrow> bool" where
  "well_formed_extend (Token t) = (t \<noteq> [] \<and> list_all (\<lambda>c. \<not> is_CTL c \<and> c \<notin> set separators) t)"
| "well_formed_extend (Coded_URL u) = list_all (\<lambda>c. c \<noteq> NUL \<and> c \<noteq> CHR ''>'') u"

type_synonym dav_element = "string list \<times> dav_extend option \<times> string list"

fun well_formed_element :: "dav_element \<Rightarrow> bool" where
  "well_formed_element (before, e, after) =
     (list_all (\<lambda>u. u \<in> set lws_units) before
      \<and> (case e of None \<Rightarrow> True | Some e \<Rightarrow> well_formed_extend e)
      \<and> list_all (\<lambda>u. u \<in> set lws_units) after)"

fun element_text :: "dav_element \<Rightarrow> string" where
  "element_text (before, e, after) =
     concat before @ (case e of None \<Rightarrow> [] | Some e \<Rightarrow> extend_text e) @ concat after"

fun element_level :: "dav_element \<Rightarrow> int" where
  "element_level (before, e, after) = (case e of None \<Rightarrow> 0 | Some e \<Rightarrow> extend_level e)"

fun dav_header_text :: "dav_element list \<Rightarrow> string" where
  "dav_header_text [] = []"
| "dav_header_text [element] = element_text element"
| "dav_header_text (element # rest) = element_text element @ CHR '','' # dav_header_text rest"

fun max_level :: "dav_element list \<Rightarrow> int" where
  "max_level [] = 0"
| "max_level (element # rest) = max (element_level element) (max_level rest)"

subsection \<open>Stream errors and the SSL property bag\<close>

text \<open>
  A \<^verbatim>\<open>CFStreamError\<close> is a domain and a 32-bit signed code. The error codes of
  Secure Transport that \<^verbatim>\<open>HandleSSLErrors\<close> compares with are not defined in this
  repository: the values below are those of \<^verbatim>\<open>Security/SecureTransport.h\<close>, which
  the source includes through \<^verbatim>\<open>Security/Security.h\<close>.
\<close>

datatype CFStreamErrorDomain =
  kCFStreamErrorDomainPOSIX | kCFStreamErrorDomainSSL | kCFStreamErrorDomainOther

record CFStreamError =
  domain :: CFStreamErrorDomain
  errorCode :: int

definition errSSLProtocol :: int where "errSSLProtocol = -9800"
definition errSSLXCertChainInvalid :: int where "errSSLXCertChainInvalid = -9807"
definition errSSLBadCert :: int where "errSSLBadCert = -9808"
definition errSSLCrypto :: int where "errSSLCrypto = -9809"
definition errSSLUnknownRootCert :: int where "errSSLUnknownRootCert = -9812"
definition errSSLNoRootCert :: int where "errSSLNoRootCert = -9813"
definition errSSLCertExpired :: int where "errSSLCertExpired = -9814"
definition errSSLCertNotYetValid :: int where "errSSLCertNotYetValid = -9815"
definition errSSLClosedNoNotify :: int where "errSSLClosedNoNotify = -9816"
definition errSSLPeerBadCert :: int where "errSSLPeerBadCert = -9825"
definition errSSLIllegalParam :: int where "errSSLIllegalParam = -9830"
definition errSSLPeerAccessDenied :: int where "errSSLPeerAccessDenied = -9832"
definition errSSLHostNameMismatch :: int where "errSSLHostNameMismatch = -9843"
definition errSSLLast :: int where "errSSLLast = -9849"

lemmas errSSL_defs =
  errSSLProtocol_def errSSLXCertChainInvalid_def errSSLBadCert_def errSSLCrypto_def
  errSSLUnknownRootCert_def errSSLNoRootCert_def errSSLCertExpired_def
  errSSLCertNotYetValid_def errSSLClosedNoNotify_def errSSLPeerBadCert_def
  errSSLIllegalParam_def errSSLPeerAccessDenied_def errSSLHostNameMismatch_def
  errSSLLast_def

text \<open>
  The SSL property bag \<^verbatim>\<open>gSSLPropertiesDict\<close>: NULL (\<open>None\<close>) until the first
  SSL error, then a dictionary from the five keys this file sets to their values.
  \<^verbatim>\<open>CFDictionaryGetValue\<close> is the lookup, NULL when the key is absent.
\<close>

datatype ssl_key =
  kCFStreamSSLLevel | kCFStreamSSLAllowsExpiredCertificates | kCFStreamSSLAllowsExpiredRoots
  | kCFStreamSSLValidatesCertificateChain | kCFStreamSSLAllowsAnyRoot

datatype ssl_value = kCFStreamSocketSecurityLevelSSLv3 | kCFBooleanTrue | kCFBooleanFalse

type_synonym ssl_dict = "ssl_key \<rightharpoonup> ssl_value"

text \<open>
  The part of the process state that \<^verbatim>\<open>HandleSSLErrors\<close> reads and writes: the
  bag, and the record of every run of the certificate helper
  (\<^verbatim>\<open>ConfirmCertificate\<close> forks it and waits for it), kept as the list of the error
  codes it was shown.
\<close>

record ssl_state =
  gSSLPropertiesDict :: "ssl_dict option"
  certificate_prompts :: "int list"

text \<open>
  \<^verbatim>\<open>ConfirmCertificate\<close>. When one of the calls before the helper is started fails
  (the dictionary, the certificates of the stream, the number, the host name, the
  property list, \<^verbatim>\<open>pipe\<close>, \<^verbatim>\<open>fork\<close>), the function returns FALSE and no
  helper has run: \<open>helper\<close> is \<open>None\<close>. Otherwise the helper is started, and the
  function returns TRUE exactly when the parent wrote it the whole property list and the
  helper exited with status 0: \<open>helper\<close> is \<open>Some\<close> of that outcome.
\<close>

definition ConfirmCertificate ::
  "bool option \<Rightarrow> int \<Rightarrow> 'a ssl_state_scheme \<Rightarrow> bool \<times> 'a ssl_state_scheme" where
  "ConfirmCertificate helper sslError s =
     (case helper of
        None \<Rightarrow> (False, s)
      | Some accepted \<Rightarrow>
          (accepted, s\<lparr>certificate_prompts := certificate_prompts s @ [sslError]\<rparr>))"

text \<open>The condition under which the level falls back from TLS to SSL.\<close>

definition ssl_fallback_range :: "int \<Rightarrow> bool" where
  "ssl_fallback_range sslError =
     ((sslError \<le> errSSLProtocol \<and> sslError > errSSLXCertChainInvalid)
      \<or> (sslError \<le> errSSLCrypto \<and> sslError > errSSLUnknownRootCert)
      \<or> (sslError \<le> errSSLClosedNoNotify \<and> sslError > errSSLPeerBadCert)
      \<or> sslError = errSSLIllegalParam
      \<or> (sslError \<le> errSSLPeerAccessDenied \<and> sslError > errSSLLast))"

text \<open>
  One arm of the switch: unless the bag already holds \<open>key\<close>, ask the user; on
  acceptance set the values (\<open>set_values\<close>, the calls of
  \<^verbatim>\<open>CFDictionarySetValue\<close>) and ask for a retry, else cancel. When the bag holds
  the key the result stays EIO, as initialised.
\<close>

definition certificate_exception ::
  "bool option \<Rightarrow> int \<Rightarrow> ssl_key \<Rightarrow> (ssl_dict \<Rightarrow> ssl_dict) \<Rightarrow> ssl_dict
     \<Rightarrow> 'a ssl_state_scheme \<Rightarrow> errno \<times> 'a ssl_state_scheme" where
  "certificate_exception helper sslError key set_values dict s =
     (if dict key = None then
        (case ConfirmCertificate helper sslError s of
           (confirmed, s') \<Rightarrow>
             if confirmed then
               (EAGAIN, s'\<lparr>gSSLPropertiesDict := Some (set_values dict)\<rparr>)
             else (ECANCELED, s'))
      else (EIO, s))"

text \<open>
  \<^verbatim>\<open>HandleSSLErrors\<close>, given the error of the stream. \<open>dict_created\<close> says
  whether \<^verbatim>\<open>CFDictionaryCreateMutable\<close> succeeds when the bag is still NULL,
  \<open>helper\<close> what a call of \<^verbatim>\<open>ConfirmCertificate\<close> meets.
\<close>

definition HandleSSLErrors ::
  "bool \<Rightarrow> bool option \<Rightarrow> CFStreamError \<Rightarrow> 'a ssl_state_scheme
     \<Rightarrow> errno \<times> 'a ssl_state_scheme" where
  "HandleSSLErrors dict_created helper streamError s =
     (if domain streamError = kCFStreamErrorDomainSSL then
        (let sslError = errorCode streamError;
             s = (if gSSLPropertiesDict s = None \<and> dict_created
                  then s\<lparr>gSSLPropertiesDict := Some Map.empty\<rparr> else s)
         in case gSSLPropertiesDict s of
              None \<Rightarrow> (EIO, s)
            | Some dict \<Rightarrow>
                if dict kCFStreamSSLLevel = None \<and> ssl_fallback_range sslError then
                  (EAGAIN, s\<lparr>gSSLPropertiesDict :=
                     Some (dict(kCFStreamSSLLevel \<mapsto> kCFStreamSocketSecurityLevelSSLv3))\<rparr>)
                else if sslError = errSSLCertExpired \<or> sslError = errSSLCertNotYetValid then
                  certificate_exception helper sslError kCFStreamSSLAllowsExpiredCertificates
                    (\<lambda>d. d(kCFStreamSSLAllowsExpiredCertificates \<mapsto> kCFBooleanTrue,
                           kCFStreamSSLAllowsExpiredRoots \<mapsto> kCFBooleanTrue)) dict s
                else if sslError = errSSLBadCert \<or> sslError = errSSLXCertChainInvalid
                        \<or> sslError = errSSLHostNameMismatch then
                  certificate_exception helper sslError kCFStreamSSLValidatesCertificateChain
                    (\<lambda>d. d(kCFStreamSSLValidatesCertificateChain \<mapsto> kCFBooleanFalse)) dict s
                else if sslError = errSSLUnknownRootCert \<or> sslError = errSSLNoRootCert then
                  certificate_exception helper sslError kCFStreamSSLAllowsAnyRoot
                    (\<lambda>d. d(kCFStreamSSLAllowsAnyRoot \<mapsto> kCFBooleanTrue)) dict s
                else (EIO, s))
      else (EIO, s))"

text \<open>
  The fault classes in the specification's words: the key whose presence in the bag
  records that a certificate fault was accepted.
\<close>

definition exception_key :: "int \<Rightarrow> ssl_key option" where
  "exception_key sslError =
     (if sslError = errSSLCertExpired \<or> sslError = errSSLCertNotYetValid
        then Some kCFStreamSSLAllowsExpiredCertificates
      else if sslError = errSSLBadCert \<or> sslError = errSSLXCertChainInvalid
              \<or> sslError = errSSLHostNameMismatch
        then Some kCFStreamSSLValidatesCertificateChain
      else if sslError = errSSLUnknownRootCert \<or> sslError = errSSLNoRootCert
        then Some kCFStreamSSLAllowsAnyRoot
      else None)"

subsection \<open>Read streams, the slot table and the process state\<close>

text \<open>
  An HTTP read stream, as far as the transaction engine can tell one from another:
  whether \<^verbatim>\<open>CFReadStreamOpen\<close> fails and with which error, what the successive
  calls of \<^verbatim>\<open>CFReadStreamRead\<close> will deliver (chunks of body bytes, or an error),
  and the response header it will hold. The stream that the HTTP library makes for a
  request depends on the server; the functions below take it as an argument.
\<close>

type_synonym UInt8 = "8 word"

datatype read_event = ReadData "UInt8 list" | ReadError CFStreamError

record CFReadStream =
  open_error :: "CFStreamError option"
  pending :: "read_event list"
  responseHeader :: "CFHTTPMessage option"

text \<open>
  What a call of \<^verbatim>\<open>CFReadStreamRead\<close> returns: the bytes read (none at the end of
  the stream: the C function returns 0), or a failure (the C function returns -1 and
  \<^verbatim>\<open>CFReadStreamGetError\<close> gives the error). A read takes at most
  \<open>bufferLength\<close> bytes of the chunk at hand and leaves the rest for the next read.
\<close>

datatype read_result = Read "UInt8 list" | ReadFailed CFStreamError

fun CFReadStreamRead :: "read_event list \<Rightarrow> nat \<Rightarrow> read_result \<times> read_event list" where
  "CFReadStreamRead [] bufferLength = (Read [], [])"
| "CFReadStreamRead (ReadError streamError # rest) bufferLength = (ReadFailed streamError, rest)"
| "CFReadStreamRead (ReadData bytes # rest) bufferLength =
     (Read (take bufferLength bytes),
      if drop bufferLength bytes = [] then rest
      else ReadData (drop bufferLength bytes) # rest)"

text \<open>The status of a stream is \<^verbatim>\<open>kCFStreamStatusAtEnd\<close> when nothing is left to deliver.\<close>

definition at_end :: "read_event list \<Rightarrow> bool" where
  "at_end events = (events = [])"

fun event_size :: "read_event \<Rightarrow> nat" where
  "event_size (ReadData bytes) = Suc (length bytes)"
| "event_size (ReadError streamError) = 1"

definition events_size :: "read_event list \<Rightarrow> nat" where
  "events_size events = sum_list (map event_size events)"

text \<open>
  A slot of the table \<^verbatim>\<open>gReadStreams\<close>. A pointer to a slot is its index in the
  table.
\<close>

record ReadStreamRec =
  inUse :: bool
  readStreamRef :: "CFReadStream option"
  connectionClose :: bool

datatype connection_state = WEBDAV_CONNECTION_UP | WEBDAV_CONNECTION_DOWN

text \<open>
  The cache file behind the descriptor \<^verbatim>\<open>node->file_fd\<close>: its bytes, the file
  position of the descriptor and the flags that \<^verbatim>\<open>fchflags\<close> sets.
\<close>

record open_file =
  file_contents :: "UInt8 list"
  file_offset :: nat
  file_flags :: nat

definition UF_NODUMP :: nat where "UF_NODUMP = 1"

datatype download_status =
  WEBDAV_DOWNLOAD_NEVER | WEBDAV_DOWNLOAD_IN_PROGRESS | WEBDAV_DOWNLOAD_FINISHED
  | WEBDAV_DOWNLOAD_ABORTED

text \<open>The fields of a node that this file reads and writes in the functions modelled.\<close>

record node_entry =
  file_fd :: open_file
  file_status :: download_status
  file_locktoken :: "string option"
  file_locktoken_uid :: nat

text \<open>
  A URL object: its string and, for a relative URL, the URL it is relative to. A request
  message: the method, the URL, the header fields and the body.
\<close>

datatype CFURL = CFURL string "CFURL option"

record http_request =
  requestMethod :: string
  requestURL :: CFURL
  requestHeaders :: "(string \<times> string) list"
  requestBody :: "UInt8 list option"

text \<open>
  The process state: the SSL property bag and the certificate prompts (above), the
  slot table, the connection state kept by \<^verbatim>\<open>get_connectionstate\<close> and
  \<^verbatim>\<open>set_connectionstate\<close>, the flag \<^verbatim>\<open>gSuppressAllUI\<close>, the two header
  values fixed at start-up, and the calls made
  so far to the request queue (\<^verbatim>\<open>requestqueue_enqueue_download\<close> with a node and a
  slot) and to the authentication cache (\<^verbatim>\<open>authcache_apply\<close> and
  \<^verbatim>\<open>authcache_valid\<close> with a uid and a request).
\<close>

record globals = ssl_state +
  gReadStreams :: "ReadStreamRec list"
  connectionstate :: connection_state
  gSuppressAllUI :: bool
  userAgentHeaderValue :: string
  X_Source_Id_HeaderValue :: "string option"
  enqueued_downloads :: "(node_entry \<times> nat) list"
  authcache_applied :: "(nat \<times> http_request) list"
  authcache_validated :: "(nat \<times> http_request) list"

text \<open>
  What the system and the libraries answer during one attempt of a transaction:
  whether each allocation, property setting and system call succeeds, whether the
  certificate helper runs and what it answers, how many bytes a \<^verbatim>\<open>write\<close> of \<open>n\<close> bytes
  writes (negative: it fails), and what the request queue returns.
\<close>

datatype whence = SEEK_SET | SEEK_END

record outcomes =
  stream_created :: bool
  autoredirect_set :: bool
  proxy_set :: bool
  connection_number_set :: bool
  dictionary_created :: bool
  certificate_accepted :: "bool option"
  buffer_allocated :: bool
  buffer_grown :: "nat \<Rightarrow> bool"
  fchflags_done :: "nat \<Rightarrow> bool"
  ftruncate_done :: bool
  lseek_done :: "whence \<Rightarrow> bool"
  bytes_written :: "nat \<Rightarrow> int"
  enqueue_result :: errno
  file_stream_created :: bool

subsection \<open>System calls on the cache file\<close>

definition fchflags :: "bool \<Rightarrow> open_file \<Rightarrow> nat \<Rightarrow> int \<times> open_file" where
  "fchflags done fd flags = (if done then (0, fd\<lparr>file_flags := flags\<rparr>) else (-1, fd))"

definition ftruncate :: "bool \<Rightarrow> open_file \<Rightarrow> nat \<Rightarrow> int \<times> open_file" where
  "ftruncate done fd len =
     (if done then
        (0, fd\<lparr>file_contents :=
                 take len (file_contents fd) @ replicate (len - length (file_contents fd)) 0\<rparr>)
      else (-1, fd))"

definition lseek :: "bool \<Rightarrow> open_file \<Rightarrow> nat \<Rightarrow> whence \<Rightarrow> int \<times> open_file" where
  "lseek done fd pos wh =
     (if done then
        (let new_offset = (case wh of SEEK_SET \<Rightarrow> pos | SEEK_END \<Rightarrow> length (file_contents fd) + pos)
         in (int new_offset, fd\<lparr>file_offset := new_offset\<rparr>))
      else (-1, fd))"

text \<open>
  \<^verbatim>\<open>write\<close>: \<open>returned\<close> is what the call returns; when it is not negative, that
  many bytes of the buffer go into the file at the file position, over the bytes that
  were there, and the position moves past them.
\<close>

definition sys_write :: "int \<Rightarrow> open_file \<Rightarrow> UInt8 list \<Rightarrow> int \<times> open_file" where
  "sys_write returned fd buffer =
     (if returned < 0 then (-1, fd)
      else
        (let written = take (nat returned) buffer;
             before = take (file_offset fd) (file_contents fd)
                      @ replicate (file_offset fd - length (file_contents fd)) 0;
             after = drop (file_offset fd + length written) (file_contents fd)
         in (int (length written),
             fd\<lparr>file_contents := before @ written @ after,
                file_offset := file_offset fd + length written\<rparr>)))"

subsection \<open>The slot pool\<close>

text \<open>
  The scan of \<^verbatim>\<open>get_ReadStreamRec\<close>: the first free slot whose stream is still open
  ends the scan; otherwise the first free slot found is kept.
\<close>

fun find_ReadStreamRec :: "ReadStreamRec list \<Rightarrow> nat \<Rightarrow> nat option \<Rightarrow> nat option" where
  "find_ReadStreamRec [] index result = result"
| "find_ReadStreamRec (slot # slots) index result =
     (if \<not> inUse slot then
        (if readStreamRef slot \<noteq> None then Some index
         else if result = None then find_ReadStreamRec slots (Suc index) (Some index)
         else find_ReadStreamRec slots (Suc index) result)
      else find_ReadStreamRec slots (Suc index) result)"

definition update_ReadStreamRec ::
  "nat \<Rightarrow> (ReadStreamRec \<Rightarrow> ReadStreamRec) \<Rightarrow> 'a globals_scheme \<Rightarrow> 'a globals_scheme" where
  "update_ReadStreamRec index f g =
     g\<lparr>gReadStreams := (gReadStreams g)[index := f (gReadStreams g ! index)]\<rparr>"

definition get_ReadStreamRec :: "'a globals_scheme \<Rightarrow> nat option \<times> 'a globals_scheme" where
  "get_ReadStreamRec g =
     (case find_ReadStreamRec (gReadStreams g) 0 None of
        None \<Rightarrow> (None, g)
      | Some index \<Rightarrow> (Some index, update_ReadStreamRec index (\<lambda>slot. slot\<lparr>inUse := True\<rparr>) g))"

definition release_ReadStreamRec :: "nat \<Rightarrow> 'a globals_scheme \<Rightarrow> 'a globals_scheme" where
  "release_ReadStreamRec theReadStreamRec g =
     update_ReadStreamRec theReadStreamRec (\<lambda>slot. slot\<lparr>inUse := False\<rparr>) g"

text \<open>
  The end of every failed transaction: close and release the stream of the slot, set
  \<^verbatim>\<open>readStreamRef\<close> to NULL, and release the slot.
\<close>

definition close_and_release :: "nat \<Rightarrow> 'a globals_scheme \<Rightarrow> 'a globals_scheme" where
  "close_and_release readStreamRecPtr g =
     release_ReadStreamRec readStreamRecPtr
       (update_ReadStreamRec readStreamRecPtr (\<lambda>slot. slot\<lparr>readStreamRef := None\<rparr>) g)"

subsection \<open>Transport errors and the stream-open procedure\<close>

text \<open>
  What each transaction variant does with the error of a failed open or read (the same
  lines stand four times in the source): on a POSIX EPIPE, while
  \<^verbatim>\<open>*retryTransaction\<close> is true, clear the flag and ask for a retry; on anything
  else set the connection state to down and return ENXIO.
\<close>

definition transport_error ::
  "CFStreamError \<Rightarrow> bool \<Rightarrow> 'a globals_scheme \<Rightarrow> errno \<times> bool \<times> 'a globals_scheme" where
  "transport_error streamError retryTransaction g =
     (if retryTransaction \<and> domain streamError = kCFStreamErrorDomainPOSIX
         \<and> errorCode streamError = EPIPE
      then (EAGAIN, False, g)
      else (ENXIO, retryTransaction, g\<lparr>connectionstate := WEBDAV_CONNECTION_DOWN\<rparr>))"

text \<open>
  \<^verbatim>\<open>open_stream_for_transaction\<close>. The result is the errno, the slot in use (NULL on
  failure), the retry flag and the state. On every failure a result of 0 becomes EIO.
\<close>

definition open_stream_for_transaction ::
  "outcomes \<Rightarrow> CFReadStream \<Rightarrow> bool \<Rightarrow> bool \<Rightarrow> 'a globals_scheme
     \<Rightarrow> errno \<times> nat option \<times> bool \<times> 'a globals_scheme" where
  "open_stream_for_transaction sys newReadStreamRef auto_redirect retryTransaction g =
     (if \<not> stream_created sys then (EIO, None, retryTransaction, g)
      else if auto_redirect \<and> \<not> autoredirect_set sys then (EIO, None, retryTransaction, g)
      else if \<not> proxy_set sys then (EIO, None, retryTransaction, g)
      else
        (case get_ReadStreamRec g of
           (None, g) \<Rightarrow> (EIO, None, retryTransaction, g)
         | (Some theReadStreamRec, g) \<Rightarrow>
             if \<not> connection_number_set sys then
               (EIO, None, retryTransaction, release_ReadStreamRec theReadStreamRec g)
             else
               (case open_error newReadStreamRef of
                  Some streamError \<Rightarrow>
                    (case HandleSSLErrors (dictionary_created sys) (certificate_accepted sys) streamError g of
                       (result, g) \<Rightarrow>
                         (case (if result \<noteq> EAGAIN
                                then transport_error streamError retryTransaction g
                                else (result, retryTransaction, g)) of
                            (result, retryTransaction, g) \<Rightarrow>
                              (if result = 0 then EIO else result, None, retryTransaction,
                               release_ReadStreamRec theReadStreamRec g)))
                | None \<Rightarrow>
                    (0, Some theReadStreamRec, retryTransaction,
                     update_ReadStreamRec theReadStreamRec
                       (\<lambda>slot. slot\<lparr>readStreamRef := Some newReadStreamRef\<rparr>) g))))"

subsection \<open>The three transaction variants\<close>

text \<open>
  \<^verbatim>\<open>BODY_BUFFER_SIZE\<close> is 64K. \<^verbatim>\<open>first_read_len\<close> is a global set at start-up
  from the page size; the functions take it as an argument.
\<close>

definition BODY_BUFFER_SIZE :: nat where "BODY_BUFFER_SIZE = 0x10000"

text \<open>Every read that returns bytes makes the stream smaller: the loops below end.\<close>

lemma CFReadStreamRead_progress:
  assumes "CFReadStreamRead events bufferLength = (Read bytes, events')" and "bytes \<noteq> []"
  shows "events_size events' < events_size events"
proof (cases events)
  case Nil
  then show ?thesis using assms by simp
next
  case (Cons event rest)
  show ?thesis
  proof (cases event)
    case (ReadError streamError)
    then show ?thesis using assms Cons by simp
  next
    case (ReadData chunk)
    then have bytes: "bytes = take bufferLength chunk"
      and events': "events' = (if drop bufferLength chunk = [] then rest
                               else ReadData (drop bufferLength chunk) # rest)"
      using assms(1) Cons by simp_all
    have "0 < bufferLength" "chunk \<noteq> []" using bytes assms(2) by auto
    then show ?thesis using events' Cons ReadData by (auto simp: events_size_def)
  qed
qed

lemma CFReadStreamRead_smaller:
  "(Read bytes, events') = CFReadStreamRead events bufferLength \<Longrightarrow> bytes \<noteq> []
     \<Longrightarrow> events_size events' < events_size events"
  using CFReadStreamRead_progress [of events bufferLength bytes events'] by simp

text \<open>
  The read loop of \<^verbatim>\<open>stream_get_transaction\<close>: read until \<open>first_read_len\<close>
  bytes are in the buffer or the stream ends. It ends with the buffer, the stream and
  \<^verbatim>\<open>background_load\<close>, or with the error of a failed read.
\<close>

datatype first_read = FirstRead "UInt8 list" "read_event list" bool
  | FirstReadFailed CFStreamError "read_event list"

function read_first :: "nat \<Rightarrow> read_event list \<Rightarrow> UInt8 list \<Rightarrow> first_read" where
  "read_first first_read_len events buffer =
     (case CFReadStreamRead events (first_read_len - length buffer) of
        (Read bytes, events') \<Rightarrow>
          if bytes \<noteq> [] then
            (if length (buffer @ bytes) \<ge> first_read_len then
               FirstRead (buffer @ bytes) events' (\<not> at_end events')
             else read_first first_read_len events' (buffer @ bytes))
          else FirstRead buffer events' False
      | (ReadFailed streamError, events') \<Rightarrow> FirstReadFailed streamError events')"
  by pat_completeness auto
termination
  by (relation "measure (\<lambda>(first_read_len, events, buffer). events_size events)")
    (auto dest: CFReadStreamRead_smaller)

text \<open>
  The read loop of \<^verbatim>\<open>stream_transaction\<close>: read into a buffer that grows by 64K
  whenever less than 32K of it is left after a read.
\<close>

datatype body_read = BodyRead "UInt8 list" "read_event list"
  | BodyReadFailed CFStreamError "read_event list"
  | ReallocFailed "read_event list"

function read_body :: "outcomes \<Rightarrow> read_event list \<Rightarrow> nat \<Rightarrow> UInt8 list \<Rightarrow> body_read" where
  "read_body sys events bufferSize buffer =
     (case CFReadStreamRead events (bufferSize - length buffer) of
        (Read bytes, events') \<Rightarrow>
          if bytes \<noteq> [] then
            (if (bufferSize - length buffer) - length bytes < BODY_BUFFER_SIZE div 2 then
               (if buffer_grown sys (bufferSize + BODY_BUFFER_SIZE) then
                  read_body sys events' (bufferSize + BODY_BUFFER_SIZE) (buffer @ bytes)
                else ReallocFailed events')
             else read_body sys events' bufferSize (buffer @ bytes))
          else BodyRead buffer events'
      | (ReadFailed streamError, events') \<Rightarrow> BodyReadFailed streamError events')"
  by pat_completeness auto
termination
  by (relation "measure (\<lambda>(sys, events, bufferSize, buffer). events_size events)")
    (auto dest: CFReadStreamRead_smaller)

text \<open>
  The read loop of \<^verbatim>\<open>stream_transaction_from_file\<close>: read the response body 64K
  at a time and throw it away.
\<close>

function eat_response :: "read_event list \<Rightarrow> CFStreamError option \<times> read_event list" where
  "eat_response events =
     (case CFReadStreamRead events BODY_BUFFER_SIZE of
        (Read bytes, events') \<Rightarrow>
          if bytes \<noteq> [] then eat_response events' else (None, events')
      | (ReadFailed streamError, events') \<Rightarrow> (Some streamError, events'))"
  by pat_completeness auto
termination
  by (relation "measure events_size")
    (auto dest: CFReadStreamRead_smaller)

text \<open>
  The first check of every variant: when the user interface is suppressed and the
  connection is not up, the transaction fails at once.
\<close>

definition connection_down :: "'a globals_scheme \<Rightarrow> bool" where
  "connection_down g = (gSuppressAllUI g \<and> connectionstate g \<noteq> WEBDAV_CONNECTION_UP)"

text \<open>
  Is the value of the Connection header (if any) equal to \<^verbatim>\<open>close\<close>, letter case
  aside?
\<close>

definition ascii_lower :: "char \<Rightarrow> char" where
  "ascii_lower c =
     (if 65 \<le> (of_char c :: nat) \<and> (of_char c :: nat) \<le> 90
      then char_of ((of_char c :: nat) + 32) else c)"

definition connection_close_requested :: "CFHTTPMessage \<Rightarrow> bool" where
  "connection_close_requested responseMessage =
     (case CFHTTPMessageCopyHeaderFieldValue responseMessage ''Connection'' of
        None \<Rightarrow> False
      | Some connectionHeaderRef \<Rightarrow> map ascii_lower connectionHeaderRef = ''close'')"

text \<open>
  The switch on the status code in \<^verbatim>\<open>stream_get_transaction\<close>: what goes into the
  cache file. The result says whether every call succeeded, gives
  \<^verbatim>\<open>background_load\<close> (cleared for a status other than 200 and 206) and the file.
  For 200 the write must write every byte; for 206 it must only not fail.
\<close>

definition cache_first_read ::
  "outcomes \<Rightarrow> nat \<Rightarrow> UInt8 list \<Rightarrow> bool \<Rightarrow> open_file \<Rightarrow> bool \<times> bool \<times> open_file" where
  "cache_first_read sys status buffer background_load fd =
     (if status = 200 then
        (case fchflags (fchflags_done sys 0) fd 0 of
           (r, fd) \<Rightarrow>
             if r \<noteq> 0 then (False, background_load, fd)
             else
               (case ftruncate (ftruncate_done sys) fd 0 of
                  (r, fd) \<Rightarrow>
                    if r = -1 then (False, background_load, fd)
                    else
                      (case lseek (lseek_done sys SEEK_SET) fd 0 SEEK_SET of
                         (r, fd) \<Rightarrow>
                           if r < 0 then (False, background_load, fd)
                           else
                             (case sys_write (bytes_written sys (length buffer)) fd buffer of
                                (r, fd) \<Rightarrow>
                                  if r \<noteq> int (length buffer) then (False, background_load, fd)
                                  else (True, background_load, fd)))))
      else if status = 206 then
        (case fchflags (fchflags_done sys 0) fd 0 of
           (r, fd) \<Rightarrow>
             if r \<noteq> 0 then (False, background_load, fd)
             else
               (case lseek (lseek_done sys SEEK_END) fd 0 SEEK_END of
                  (r, fd) \<Rightarrow>
                    if r < 0 then (False, background_load, fd)
                    else
                      (case sys_write (bytes_written sys (length buffer)) fd buffer of
                         (r, fd) \<Rightarrow>
                           if r < 0 then (False, background_load, fd)
                           else (True, background_load, fd))))
      else (True, False, fd))"

text \<open>
  \<^verbatim>\<open>stream_get_transaction\<close>. The result is the errno, the response (NULL on
  failure), the retry flag, the node and the state. On the hand-over to the download
  thread the function returns without releasing the slot; on every other path the slot
  is released.
\<close>

definition stream_get_transaction ::
  "outcomes \<Rightarrow> nat \<Rightarrow> CFReadStream \<Rightarrow> bool \<Rightarrow> node_entry \<Rightarrow> 'a globals_scheme
     \<Rightarrow> errno \<times> CFHTTPMessage option \<times> bool \<times> node_entry \<times> 'a globals_scheme" where
  "stream_get_transaction sys first_read_len newReadStreamRef retryTransaction node g =
     (if connection_down g then (EIO, None, retryTransaction, node, g)
      else
        (case open_stream_for_transaction sys newReadStreamRef True retryTransaction g of
           (result, None, retryTransaction, g) \<Rightarrow>
             (if result = 0 then EIO else result, None, retryTransaction, node, g)
         | (result, Some readStreamRecPtr, retryTransaction, g) \<Rightarrow>
             if \<not> buffer_allocated sys then
               (EIO, None, retryTransaction, node, close_and_release readStreamRecPtr g)
             else
               (case read_first first_read_len (pending newReadStreamRef) [] of
                  FirstReadFailed streamError events \<Rightarrow>
                    (case transport_error streamError retryTransaction g of
                       (result, retryTransaction, g) \<Rightarrow>
                         (result, None, retryTransaction, node,
                          close_and_release readStreamRecPtr g))
                | FirstRead buffer events background_load \<Rightarrow>
                    (case responseHeader newReadStreamRef of
                       None \<Rightarrow>
                         (EIO, None, retryTransaction, node,
                          close_and_release readStreamRecPtr g)
                     | Some responseMessage \<Rightarrow>
                         (case cache_first_read sys (responseStatusCode responseMessage) buffer
                                 background_load (file_fd node) of
                            (False, background_load, fd) \<Rightarrow>
                              (EIO, None, retryTransaction, node\<lparr>file_fd := fd\<rparr>,
                               close_and_release readStreamRecPtr g)
                          | (True, background_load, fd) \<Rightarrow>
                              (let node = node\<lparr>file_fd := fd\<rparr>;
                                   g = g\<lparr>connectionstate := WEBDAV_CONNECTION_UP\<rparr>;
                                   g = update_ReadStreamRec readStreamRecPtr
                                         (\<lambda>slot. slot\<lparr>readStreamRef :=
                                                       Some (newReadStreamRef\<lparr>pending := events\<rparr>),
                                                     connectionClose :=
                                                       connection_close_requested responseMessage\<rparr>) g
                               in if background_load then
                                    (case fchflags (fchflags_done sys UF_NODUMP) (file_fd node)
                                            UF_NODUMP of
                                       (r, fd) \<Rightarrow>
                                         if r \<noteq> 0 then
                                           (EIO, None, retryTransaction, node\<lparr>file_fd := fd\<rparr>,
                                            close_and_release readStreamRecPtr g)
                                         else
                                           (let node = node\<lparr>file_fd := fd,
                                                  file_status := WEBDAV_DOWNLOAD_IN_PROGRESS\<rparr>;
                                                g = g\<lparr>enqueued_downloads :=
                                                  enqueued_downloads g @ [(node, readStreamRecPtr)]\<rparr>
                                            in if enqueue_result sys \<noteq> 0 then
                                                 (EIO, None, retryTransaction, node,
                                                  close_and_release readStreamRecPtr g)
                                               else
                                                 (0, Some responseMessage, retryTransaction, node, g)))
                                  else
                                    (let node = node\<lparr>file_status := WEBDAV_DOWNLOAD_FINISHED\<rparr>;
                                         g = (if connection_close_requested responseMessage then
                                                update_ReadStreamRec readStreamRecPtr
                                                  (\<lambda>slot. slot\<lparr>readStreamRef := None\<rparr>) g
                                              else g);
                                         g = release_ReadStreamRec readStreamRecPtr g
                                     in (0, Some responseMessage, retryTransaction, node, g))))))))"

text \<open>
  The end of a successful \<^verbatim>\<open>stream_transaction\<close> or
  \<^verbatim>\<open>stream_transaction_from_file\<close>: the connection is up, the stream is closed
  when the server said \<^verbatim>\<open>Connection: close\<close>, and the slot is released.
\<close>

definition finish_transaction ::
  "nat \<Rightarrow> CFReadStream \<Rightarrow> CFHTTPMessage \<Rightarrow> 'a globals_scheme \<Rightarrow> 'a globals_scheme" where
  "finish_transaction readStreamRecPtr stream responseMessage g =
     release_ReadStreamRec readStreamRecPtr
       (update_ReadStreamRec readStreamRecPtr
          (\<lambda>slot. slot\<lparr>readStreamRef :=
                       (if connection_close_requested responseMessage then None
                        else Some stream)\<rparr>)
          (g\<lparr>connectionstate := WEBDAV_CONNECTION_UP\<rparr>))"

text \<open>
  \<^verbatim>\<open>stream_transaction\<close>. The result is the errno, the response body and the
  response (both NULL on failure), the retry flag and the state. A failed read goes to
  \<^verbatim>\<open>HandleSSLErrors\<close> first.
\<close>

definition stream_transaction ::
  "outcomes \<Rightarrow> CFReadStream \<Rightarrow> bool \<Rightarrow> bool \<Rightarrow> 'a globals_scheme
     \<Rightarrow> errno \<times> UInt8 list option \<times> CFHTTPMessage option \<times> bool \<times> 'a globals_scheme" where
  "stream_transaction sys newReadStreamRef auto_redirect retryTransaction g =
     (if connection_down g then (EIO, None, None, retryTransaction, g)
      else
        (case open_stream_for_transaction sys newReadStreamRef auto_redirect
                retryTransaction g of
           (result, None, retryTransaction, g) \<Rightarrow>
             (if result = 0 then EIO else result, None, None, retryTransaction, g)
         | (result, Some readStreamRecPtr, retryTransaction, g) \<Rightarrow>
             if \<not> buffer_allocated sys then
               (EIO, None, None, retryTransaction, close_and_release readStreamRecPtr g)
             else
               (case read_body sys (pending newReadStreamRef) BODY_BUFFER_SIZE [] of
                  ReallocFailed events \<Rightarrow>
                    (EIO, None, None, retryTransaction, close_and_release readStreamRecPtr g)
                | BodyReadFailed streamError events \<Rightarrow>
                    (case HandleSSLErrors (dictionary_created sys) (certificate_accepted sys) streamError g of
                       (result, g) \<Rightarrow>
                         (case (if result \<noteq> EAGAIN \<and> result \<noteq> ECANCELED
                                then transport_error streamError retryTransaction g
                                else (result, retryTransaction, g)) of
                            (result, retryTransaction, g) \<Rightarrow>
                              (if result = 0 then EIO else result, None, None, retryTransaction,
                               close_and_release readStreamRecPtr g)))
                | BodyRead buffer events \<Rightarrow>
                    (case responseHeader newReadStreamRef of
                       None \<Rightarrow>
                         (EIO, None, None, retryTransaction,
                          close_and_release readStreamRecPtr g)
                     | Some responseMessage \<Rightarrow>
                         (0, Some buffer, Some responseMessage, retryTransaction,
                          finish_transaction readStreamRecPtr
                            (newReadStreamRef\<lparr>pending := events\<rparr>) responseMessage g)))))"

text \<open>
  \<^verbatim>\<open>stream_transaction_from_file\<close>. The file length goes into the Content-Length
  header and the file position back to 0 (a failure of that second seek is only
  logged); the request body is then streamed from the descriptor by the HTTP library.
  The result is the errno, the response, the retry flag, the file and the state.
\<close>

definition stream_transaction_from_file ::
  "outcomes \<Rightarrow> CFReadStream \<Rightarrow> open_file \<Rightarrow> bool \<Rightarrow> 'a globals_scheme
     \<Rightarrow> errno \<times> CFHTTPMessage option \<times> bool \<times> open_file \<times> 'a globals_scheme" where
  "stream_transaction_from_file sys newReadStreamRef fd retryTransaction g =
     (if connection_down g then (EIO, None, retryTransaction, fd, g)
      else
        (case lseek (lseek_done sys SEEK_END) fd 0 SEEK_END of
           (contentLength, fd) \<Rightarrow>
             if contentLength = -1 then (EIO, None, retryTransaction, fd, g)
             else
               (case lseek (lseek_done sys SEEK_SET) fd 0 SEEK_SET of
                  (r, fd) \<Rightarrow>
                    if \<not> file_stream_created sys then
                      (EIO, None, retryTransaction, fd, g)
                    else
                      (case open_stream_for_transaction sys newReadStreamRef False
                              retryTransaction g of
                         (result, None, retryTransaction, g) \<Rightarrow>
                           (if result = 0 then EIO else result, None, retryTransaction,
                            fd, g)
                       | (result, Some readStreamRecPtr, retryTransaction, g) \<Rightarrow>
                           if \<not> buffer_allocated sys then
                             (EIO, None, retryTransaction, fd,
                              close_and_release readStreamRecPtr g)
                           else
                             (case eat_response (pending newReadStreamRef) of
                                (Some streamError, events) \<Rightarrow>
                                  (case transport_error streamError retryTransaction g of
                                     (result, retryTransaction, g) \<Rightarrow>
                                       (result, None, retryTransaction, fd,
                                        close_and_release readStreamRecPtr g))
                              | (None, events) \<Rightarrow>
                                  (case responseHeader newReadStreamRef of
                                     None \<Rightarrow>
                                       (EIO, None, retryTransaction, fd,
                                        close_and_release readStreamRecPtr g)
                                   | Some responseMessage \<Rightarrow>
                                       (0, Some responseMessage, retryTransaction, fd,
                                        finish_transaction readStreamRecPtr
                                          (newReadStreamRef\<lparr>pending := events\<rparr>)
                                          responseMessage g)))))))"

subsection \<open>send_transaction\<close>

text \<open>
  One round of the transaction loop needs what the libraries and the server answer in
  that round: whether \<^verbatim>\<open>CFHTTPMessageCreateRequest\<close> gives a message, what
  \<^verbatim>\<open>authcache_apply\<close> returns, the outcomes of the calls inside
  \<^verbatim>\<open>stream_transaction\<close>, and the stream made for the request.
\<close>

record attempt =
  message_created :: bool
  authcache_result :: errno
  attempt_outcomes :: outcomes
  attempt_stream :: CFReadStream

text \<open>
  The do-while loop of \<^verbatim>\<open>send_transaction\<close>. The source's loop runs as long as
  the transaction asks for a retry (EAGAIN) or the server answers 401 or 407, which
  nothing in this file bounds; here each round takes the next element of a list of
  attempts, and the result is \<open>None\<close> when the list ends before the loop does. The
  loop state is \<^verbatim>\<open>statusCode\<close>, \<^verbatim>\<open>responseBuffer\<close>, \<^verbatim>\<open>responseRef\<close>
  and \<^verbatim>\<open>retryTransaction\<close>; the result is the error and that state.
\<close>

fun transaction_loop ::
  "attempt list \<Rightarrow> nat \<Rightarrow> http_request \<Rightarrow> bool
     \<Rightarrow> 32 word \<times> UInt8 list option \<times> CFHTTPMessage option \<times> bool \<Rightarrow> 'a globals_scheme
     \<Rightarrow> (errno \<times> 32 word \<times> UInt8 list option \<times> CFHTTPMessage option \<times> 'a globals_scheme) option"
  where
  "transaction_loop [] uid message auto_redirect loop_state g = None"
| "transaction_loop (a # attempts) uid message auto_redirect
      (statusCode, responseBuffer, responseRef, retryTransaction) g =
     (if \<not> message_created a then Some (EIO, statusCode, responseBuffer, responseRef, g)
      else
        (let g = g\<lparr>authcache_applied := authcache_applied g @ [(uid, message)]\<rparr>
         in if authcache_result a \<noteq> 0 then
              Some (authcache_result a, statusCode, responseBuffer, responseRef, g)
            else
              (case stream_transaction (attempt_outcomes a) (attempt_stream a) auto_redirect
                      retryTransaction g of
                 (error, responseBuffer, responseRef, retryTransaction, g) \<Rightarrow>
                   if error = EAGAIN then
                     transaction_loop attempts uid message auto_redirect
                       (0, responseBuffer, responseRef, retryTransaction) g
                   else if error \<noteq> 0 then
                     Some (error, statusCode, responseBuffer, responseRef, g)
                   else
                     (let statusCode =
                            (case responseRef of
                               Some response \<Rightarrow> of_nat (responseStatusCode response)
                             | None \<Rightarrow> statusCode)
                      in if statusCode = 401 \<or> statusCode = 407 then
                           transaction_loop attempts uid message auto_redirect
                             (statusCode, responseBuffer, responseRef, retryTransaction) g
                         else Some (0, statusCode, responseBuffer, responseRef, g)))))"

text \<open>
  \<^verbatim>\<open>send_transaction\<close>: the message carries the User-Agent header, the X-Source-Id
  header when there is one, and the caller's headers. After the loop a result of 0 is
  replaced by the translation of the status code; when that is 0 too, the credentials
  are reported valid to the authentication cache, else the response body is freed. The
  result is the error, the response body and the response.
\<close>

definition send_transaction ::
  "attempt list \<Rightarrow> nat \<Rightarrow> CFURL \<Rightarrow> string \<Rightarrow> UInt8 list option \<Rightarrow> (string \<times> string) list \<Rightarrow> bool
     \<Rightarrow> 'a globals_scheme
     \<Rightarrow> (errno \<times> UInt8 list option \<times> CFHTTPMessage option \<times> 'a globals_scheme) option" where
  "send_transaction attempts uid url method bodyData headers auto_redirect g =
     (let message =
            \<lparr>requestMethod = method, requestURL = url,
             requestHeaders =
               (''User-Agent'', userAgentHeaderValue g)
               # (case X_Source_Id_HeaderValue g of
                    None \<Rightarrow> []
                  | Some source_id \<Rightarrow> [(''X-Source-Id'', source_id)])
               @ headers,
             requestBody = bodyData\<rparr>
      in case transaction_loop attempts uid message auto_redirect (0, None, None, True) g of
           None \<Rightarrow> None
         | Some (error, statusCode, responseBuffer, responseRef, g) \<Rightarrow>
             if error = 0 then
               (let error = translate_status_to_error statusCode
                in if error = 0 then
                     Some (0, responseBuffer, responseRef,
                           g\<lparr>authcache_validated := authcache_validated g @ [(uid, message)]\<rparr>)
                   else Some (error, None, responseRef, g))
             else Some (error, responseBuffer, responseRef, g))"

subsection \<open>create_cfurl_from_node and network_unlock\<close>

text \<open>
  The functions that \<^verbatim>\<open>create_cfurl_from_node\<close> calls are not in this file:
  \<^verbatim>\<open>nodecache_get_path_from_node\<close> belongs to the cache layer and the others to
  CoreFoundation. They are taken as they are declared, as parameters, together with
  the base URL \<^verbatim>\<open>gBaseURL\<close>: the path of a node (with an errno),
  the string made from a C string (NULL when it is not legal UTF-8), the string with
  percent escapes added (given the string and the legal URL characters to escape as
  well), the URL made from a string and a base URL, and the absolute copy of a URL.
\<close>

record url_services =
  nodecache_get_path_from_node :: "node_entry \<Rightarrow> errno \<times> string"
  CFStringCreateWithCString :: "string \<Rightarrow> string option"
  CFURLCreateStringByAddingPercentEscapes :: "string \<Rightarrow> string \<Rightarrow> string option"
  CFURLCreateWithString :: "string \<Rightarrow> CFURL \<Rightarrow> CFURL option"
  CFURLCopyAbsoluteURL :: "CFURL \<Rightarrow> CFURL"
  gBaseURL :: CFURL

text \<open>
  \<^verbatim>\<open>strncat\<close> appends to the string \<open>s1\<close> at most \<open>n\<close> characters of the
  string \<open>s2\<close>, stopping at its NUL.
\<close>

definition c_string :: "string \<Rightarrow> string" where
  "c_string s = takeWhile (\<lambda>c. c \<noteq> NUL) s"

definition strncat :: "string \<Rightarrow> string \<Rightarrow> nat \<Rightarrow> string" where
  "strncat s1 s2 n = c_string s1 @ take n (c_string s2)"

definition create_cfurl_from_node ::
  "url_services \<Rightarrow> node_entry \<Rightarrow> string option \<Rightarrow> nat \<Rightarrow> CFURL option" where
  "create_cfurl_from_node lib node name name_length =
     (case nodecache_get_path_from_node lib node of
        (error, node_path) \<Rightarrow>
          if error \<noteq> 0 then None
          else
            (let node_path =
                   (case name of
                      Some name \<Rightarrow>
                        if name_length \<noteq> 0 then strncat node_path name name_length
                        else node_path
                    | None \<Rightarrow> node_path)
             in if cur node_path \<noteq> NUL then
                  (case CFStringCreateWithCString lib (c_string node_path) of
                     None \<Rightarrow> None
                   | Some stringRef \<Rightarrow>
                       (case CFURLCreateStringByAddingPercentEscapes lib stringRef '':;?'' of
                          None \<Rightarrow> None
                        | Some escapedPathRef \<Rightarrow>
                            (case CFURLCreateWithString lib escapedPathRef (gBaseURL lib) of
                               None \<Rightarrow> None
                             | Some tempUrlRef \<Rightarrow> Some (CFURLCopyAbsoluteURL lib tempUrlRef))))
                else Some (gBaseURL lib)))"

text \<open>
  \<^verbatim>\<open>network_unlock\<close>. \<open>header_created\<close> says whether the string of the Lock-Token
  header could be made; a NULL lock token is formatted as \<^verbatim>\<open>(null)\<close>. Whatever
  happens, the node's lock token is freed and set to NULL and the uid to 0.
\<close>

definition network_unlock ::
  "url_services \<Rightarrow> bool \<Rightarrow> attempt list \<Rightarrow> node_entry \<Rightarrow> 'a globals_scheme
     \<Rightarrow> (errno \<times> node_entry \<times> 'a globals_scheme) option" where
  "network_unlock lib header_created attempts node g =
     (let unlocked = node\<lparr>file_locktoken := None, file_locktoken_uid := 0\<rparr>
      in case create_cfurl_from_node lib node None 0 of
           None \<Rightarrow> Some (EIO, unlocked, g)
         | Some urlRef \<Rightarrow>
             if \<not> header_created then Some (EIO, unlocked, g)
             else
               (let lockTokenRef =
                      ''<'' @ (case file_locktoken node of
                                 Some token \<Rightarrow> token
                               | None \<Rightarrow> ''(null)'') @ ''>''
                in case send_transaction attempts (file_locktoken_uid node) urlRef ''UNLOCK''
                          None [(''Accept'', ''*/*''), (''Lock-Token'', lockTokenRef)] False g of
                     None \<Rightarrow> None
                   | Some (error, responseBuffer, responseRef, g) \<Rightarrow> Some (error, unlocked, g)))"

subsection \<open>Conditions and inputs for the theorems\<close>

text \<open>
  The conditions under which a transaction gets as far as opening and reading its
  stream: every allocation and property setting succeeds (\<open>calls_succeed\<close>), and
  the state lets the transaction start (\<open>ready\<close>: the fail-fast check passes and a
  slot is free).
\<close>

definition calls_succeed :: "outcomes \<Rightarrow> bool \<Rightarrow> bool" where
  "calls_succeed sys auto_redirect =
     (stream_created sys \<and> (autoredirect_set sys \<or> \<not> auto_redirect) \<and> proxy_set sys
      \<and> connection_number_set sys \<and> buffer_allocated sys)"

definition ready :: "'a globals_scheme \<Rightarrow> bool" where
  "ready g = (\<not> connection_down g \<and> (\<exists>slot \<in> set (gReadStreams g). \<not> inUse slot))"

text \<open>
  A POSIX EPIPE, and the stream error (if any) that each transaction variant meets: the
  error of the failed open, or else of the failed read that ends its read loop.
\<close>

definition is_EPIPE :: "CFStreamError \<Rightarrow> bool" where
  "is_EPIPE streamError =
     (domain streamError = kCFStreamErrorDomainPOSIX \<and> errorCode streamError = EPIPE)"

definition stream_get_error :: "nat \<Rightarrow> CFReadStream \<Rightarrow> CFStreamError option" where
  "stream_get_error first_read_len stream =
     (case open_error stream of
        Some streamError \<Rightarrow> Some streamError
      | None \<Rightarrow>
          (case read_first first_read_len (pending stream) [] of
             FirstReadFailed streamError events \<Rightarrow> Some streamError
           | FirstRead buffer events background_load \<Rightarrow> None))"

definition stream_body_error :: "outcomes \<Rightarrow> CFReadStream \<Rightarrow> CFStreamError option" where
  "stream_body_error sys stream =
     (case open_error stream of
        Some streamError \<Rightarrow> Some streamError
      | None \<Rightarrow>
          (case read_body sys (pending stream) BODY_BUFFER_SIZE [] of
             BodyReadFailed streamError events \<Rightarrow> Some streamError
           | BodyRead buffer events \<Rightarrow> None
           | ReallocFailed events \<Rightarrow> None))"

definition stream_from_file_error :: "CFReadStream \<Rightarrow> CFStreamError option" where
  "stream_from_file_error stream =
     (case open_error stream of
        Some streamError \<Rightarrow> Some streamError
      | None \<Rightarrow> fst (eat_response (pending stream)))"

text \<open>
  What a transaction that ends on an EPIPE leaves behind: the connection state is
  unchanged on the retry and down otherwise, the slot is free again, and nothing was
  said to the authentication cache.
\<close>

definition after_EPIPE :: "bool \<Rightarrow> 'a globals_scheme \<Rightarrow> 'a globals_scheme \<Rightarrow> bool" where
  "after_EPIPE retryTransaction g g' =
     (connectionstate g' = (if retryTransaction then connectionstate g else WEBDAV_CONNECTION_DOWN)
      \<and> gSuppressAllUI g' = gSuppressAllUI g
      \<and> authcache_applied g' = authcache_applied g
      \<and> authcache_validated g' = authcache_validated g
      \<and> (\<exists>slot \<in> set (gReadStreams g'). \<not> inUse slot))"

text \<open>
  Concrete inputs: an environment in which every call succeeds, an idle process state
  with two slots, a node with a three-byte cache file, a stream whose second read fails
  with EPIPE, and an attempt made of that stream.
\<close>

definition every_call_succeeds :: outcomes where
  "every_call_succeeds =
     \<lparr>stream_created = True, autoredirect_set = True, proxy_set = True,
      connection_number_set = True, dictionary_created = True, certificate_accepted = Some True,
      buffer_allocated = True, buffer_grown = (\<lambda>size. True), fchflags_done = (\<lambda>flags. True),
      ftruncate_done = True, lseek_done = (\<lambda>wh. True), bytes_written = (\<lambda>n. int n),
      enqueue_result = 0, file_stream_created = True\<rparr>"

definition idle_state :: globals where
  "idle_state =
     \<lparr>gSSLPropertiesDict = None, certificate_prompts = [],
      gReadStreams = [\<lparr>inUse = False, readStreamRef = None, connectionClose = False\<rparr>,
                      \<lparr>inUse = False, readStreamRef = None, connectionClose = False\<rparr>],
      connectionstate = WEBDAV_CONNECTION_UP, gSuppressAllUI = False,
      userAgentHeaderValue = ''WebDAVFS/1.4'', X_Source_Id_HeaderValue = None,
      enqueued_downloads = [], authcache_applied = [], authcache_validated = []\<rparr>"

definition fresh_node :: node_entry where
  "fresh_node =
     \<lparr>file_fd = \<lparr>file_contents = [9, 9, 9], file_offset = 1, file_flags = 0\<rparr>,
      file_status = WEBDAV_DOWNLOAD_NEVER, file_locktoken = None, file_locktoken_uid = 0\<rparr>"

definition broken_pipe :: CFStreamError where
  "broken_pipe = \<lparr>domain = kCFStreamErrorDomainPOSIX, errorCode = EPIPE\<rparr>"

definition pipe_breaks :: CFReadStream where
  "pipe_breaks = \<lparr>open_error = None, pending = [ReadData [1, 2, 3], ReadError broken_pipe],
     responseHeader = None\<rparr>"

definition pipe_breaks_attempt :: attempt where
  "pipe_breaks_attempt =
     \<lparr>message_created = True, authcache_result = 0, attempt_outcomes = every_call_succeeds,
      attempt_stream = pipe_breaks\<rparr>"

text \<open>
  A stream that opens, answers with the status given and no header field, and delivers
  the body in one chunk.
\<close>

definition server_response :: "nat \<Rightarrow> UInt8 list \<Rightarrow> CFReadStream" where
  "server_response status body =
     \<lparr>open_error = None, pending = [ReadData body],
      responseHeader = Some \<lparr>responseStatusCode = status, headerFields = []\<rparr>\<rparr>"

subsection \<open>Inputs for create_cfurl_from_node and network_unlock\<close>


text \<open>
  Stand-ins for the library, for concrete runs: the node's path is given, every string
  is legal, a space and the characters asked for are escaped (the two hexadecimal
  digits of a character below 128), a relative URL keeps its base, and the absolute
  copy puts the string of the base before the relative string.
\<close>

definition hex_digit :: "nat \<Rightarrow> char" where
  "hex_digit n = (''0123456789ABCDEF'') ! n"

definition percent_escape :: "string \<Rightarrow> string \<Rightarrow> string option" where
  "percent_escape s to_be_escaped =
     Some (concat (map (\<lambda>c. if c = SP \<or> c \<in> set to_be_escaped
                              then [CHR ''%'', hex_digit (of_char c div 16),
                                    hex_digit (of_char c mod 16)]
                              else [c]) s))"

fun absolute_copy :: "CFURL \<Rightarrow> CFURL" where
  "absolute_copy (CFURL s (Some (CFURL base b))) = CFURL (base @ s) None"
| "absolute_copy (CFURL s None) = CFURL s None"

definition example_services :: "errno \<times> string \<Rightarrow> url_services" where
  "example_services path =
     \<lparr>nodecache_get_path_from_node = (\<lambda>node. path),
      CFStringCreateWithCString = Some,
      CFURLCreateStringByAddingPercentEscapes = percent_escape,
      CFURLCreateWithString = (\<lambda>s base. Some (CFURL s (Some base))),
      CFURLCopyAbsoluteURL = absolute_copy,
      gBaseURL = CFURL ''http://h/dav/'' None\<rparr>"

text \<open>
  The request that \<^verbatim>\<open>network_unlock\<close> has \<^verbatim>\<open>send_transaction\<close> build: method
  UNLOCK on the URL of the node, no body, and after the headers of every request the
  Accept header and the lock token between angle brackets.
\<close>

definition unlock_request :: "'a globals_scheme \<Rightarrow> CFURL \<Rightarrow> string option \<Rightarrow> http_request" where
  "unlock_request g urlRef lock_token =
     \<lparr>requestMethod = ''UNLOCK'', requestURL = urlRef,
      requestHeaders =
        (''User-Agent'', userAgentHeaderValue g)
        # (case X_Source_Id_HeaderValue g of
             None \<Rightarrow> []
           | Some source_id \<Rightarrow> [(''X-Source-Id'', source_id)])
        @ [(''Accept'', ''*/*''),
           (''Lock-Token'', ''<'' @ (case lock_token of Some token \<Rightarrow> token
                                     | None \<Rightarrow> ''(null)'') @ ''>'')],
      requestBody = None\<rparr>"

text \<open>A locked node, and an attempt in which the server answers 204 with no body.\<close>

definition locked_node :: node_entry where
  "locked_node = fresh_node\<lparr>file_locktoken := Some ''opaquelocktoken:1'', file_locktoken_uid := 501\<rparr>"

definition unlocked_attempt :: attempt where
  "unlocked_attempt =
     \<lparr>message_created = True, authcache_result = 0, attempt_outcomes = every_call_succeeds,
      attempt_stream = server_response 204 []\<rparr>"

section \<open>Theorems\<close>

subsection \<open>The lexers\<close>

lemmas char_defs = NUL_def HT_def LF_def CR_def SP_def

lemma SkipLWS_blank: "c = SP \<or> c = HT \<Longrightarrow> SkipLWS (c # bytes) = SkipLWS bytes"
  by (auto simp: char_defs)

lemma SkipLWS_fold: "c2 = SP \<or> c2 = HT \<Longrightarrow> SkipLWS (CR # LF # c2 # rest) = SkipLWS rest"
  by (auto simp: char_defs)

lemma SkipLWS_stop:
  assumes "c \<noteq> SP" "c \<noteq> HT"
    and "c = CR \<Longrightarrow> \<not> (\<exists>c2 rest. bytes = LF # c2 # rest \<and> (c2 = SP \<or> c2 = HT))"
  shows "SkipLWS (c # bytes) = c # bytes"
proof (cases "c = CR")
  case False
  then show ?thesis using assms(1,2) by (simp add: char_defs)
next
  case True
  note cr = True
  show ?thesis
  proof (cases bytes)
    case Nil
    then show ?thesis using assms(1,2) by (simp add: char_defs)
  next
    case (Cons c1 bytes1)
    note b = Cons
    show ?thesis
    proof (cases bytes1)
      case Nil
      then show ?thesis using b assms(1,2) by (simp add: char_defs)
    next
      case (Cons c2 rest)
      then show ?thesis using b assms(1,2) assms(3)[OF cr] by (auto simp: char_defs)
    qed
  qed
qed

lemma SkipLWS_cases:
  obtains (nil) "bytes = []"
  | (stop) c bs where "bytes = c # bs" "SkipLWS bytes = bytes"
      "\<not> (\<exists>u \<in> set lws_units. prefix u bytes)"
  | (blank) c bs where "bytes = c # bs" "c = SP \<or> c = HT" "SkipLWS bytes = SkipLWS bs"
  | (fold) c2 rest where "bytes = CR # LF # c2 # rest" "c2 = SP \<or> c2 = HT"
      "SkipLWS bytes = SkipLWS rest"
proof (cases bytes)
  case Nil
  then show ?thesis by (rule nil)
next
  case (Cons c bs)
  show ?thesis
  proof (cases "c = SP \<or> c = HT")
    case True
    then show ?thesis using Cons blank SkipLWS_blank by blast
  next
    case False
    note nb = False
    show ?thesis
    proof (cases "c = CR \<and> (\<exists>c2 rest. bs = LF # c2 # rest \<and> (c2 = SP \<or> c2 = HT))")
      case True
      then obtain c2 rest where "bytes = CR # LF # c2 # rest" "c2 = SP \<or> c2 = HT"
        using Cons by blast
      then show ?thesis using fold SkipLWS_fold by blast
    next
      case False
      then have s: "SkipLWS bytes = bytes"
        using nb Cons SkipLWS_stop[of c bs] by blast
      have "\<not> prefix [SP] bytes" "\<not> prefix [HT] bytes"
        using nb Cons by auto
      moreover have "\<not> prefix [CR, LF, c2] bytes" if "c2 = SP \<or> c2 = HT" for c2
      proof
        assume "prefix [CR, LF, c2] bytes"
        then obtain rest where "bytes = [CR, LF, c2] @ rest"
          by (rule prefixE)
        then have "c = CR" "bs = LF # c2 # rest"
          using Cons by simp_all
        then show False using False that by blast
      qed
      ultimately have "\<not> (\<exists>u \<in> set lws_units. prefix u bytes)"
        by (simp add: lws_units_def)
      then show ?thesis using stop Cons s by blast
    qed
  qed
qed

lemma SkipLWS_units:
  "\<exists>units. bytes = concat units @ SkipLWS bytes \<and> (\<forall>u \<in> set units. u \<in> set lws_units)"
proof (induction "length bytes" arbitrary: bytes rule: less_induct)
  case less
  show ?case
  proof (cases bytes rule: SkipLWS_cases)
    case nil
    then have "bytes = concat [] @ SkipLWS bytes \<and> (\<forall>u \<in> set ([]::string list). u \<in> set lws_units)"
      by simp
    then show ?thesis by blast
  next
    case (stop c bs)
    then have "bytes = concat [] @ SkipLWS bytes \<and> (\<forall>u \<in> set ([]::string list). u \<in> set lws_units)"
      by simp
    then show ?thesis by blast
  next
    case (blank c bs)
    then have "length bs < length bytes" by simp
    from less[OF this] obtain units where u: "bs = concat units @ SkipLWS bs"
      "\<forall>u \<in> set units. u \<in> set lws_units" by blast
    have "bytes = concat ([c] # units) @ SkipLWS bytes"
      using u(1) blank(1,3) by simp
    moreover have "\<forall>u \<in> set ([c] # units). u \<in> set lws_units"
      using u(2) blank(2) by (auto simp: lws_units_def)
    ultimately show ?thesis by blast
  next
    case (fold c2 rest)
    then have "length rest < length bytes" by simp
    from less[OF this] obtain units where u: "rest = concat units @ SkipLWS rest"
      "\<forall>u \<in> set units. u \<in> set lws_units" by blast
    have "bytes = concat ([CR, LF, c2] # units) @ SkipLWS bytes"
      using u(1) fold(1,3) by simp
    moreover have "\<forall>u \<in> set ([CR, LF, c2] # units). u \<in> set lws_units"
      using u(2) fold(2) by (auto simp: lws_units_def)
    ultimately show ?thesis by blast
  qed
qed

lemma SkipLWS_maximal: "\<not> (\<exists>u \<in> set lws_units. prefix u (SkipLWS bytes))"
proof (induction "length bytes" arbitrary: bytes rule: less_induct)
  case less
  show ?case
  proof (cases bytes rule: SkipLWS_cases)
    case nil
    then show ?thesis by (simp add: lws_units_def)
  next
    case (stop c bs)
    then show ?thesis by simp
  next
    case (blank c bs)
    then have "length bs < length bytes" by simp
    from less[OF this] show ?thesis using blank(3) by simp
  next
    case (fold c2 rest)
    then have "length rest < length bytes" by simp
    from less[OF this] show ?thesis using fold(3) by simp
  qed
qed

lemma DEL_code: "((of_char c :: nat) = 127) = (c = CHR 0x7F)"
proof -
  have "(of_char (CHR 0x7F) :: nat) = 127" by simp
  then have "((of_char c :: nat) = 127) = ((of_char c :: nat) = of_char (CHR 0x7F))"
    by simp
  then show ?thesis by (simp only: of_char_eq_iff)
qed

lemma switch_labels: "(c \<in> set token_switch_labels) = (c = CHR 0x7F \<or> c \<in> set separators)"
  by (simp add: token_switch_labels_def separators_def SP_def HT_def)

lemma SkipToken_first_terminator:
  "SkipToken bytes = dropWhile (\<lambda>c. \<not> (is_CTL c \<or> c \<in> set separators)) bytes"
proof (induction bytes rule: SkipToken.induct)
  case 1
  show ?case by simp
next
  case (2 c bytes)
  have nul: "c = NUL \<Longrightarrow> is_CTL c" by (simp add: is_CTL_def NUL_def)
  have stop: "(c = NUL \<or> (of_char c :: nat) \<le> 31 \<or> c \<in> set token_switch_labels)
      = (is_CTL c \<or> c \<in> set separators)"
    using nul by (auto simp only: switch_labels is_CTL_def DEL_code)
  show ?case
  proof (cases "is_CTL c \<or> c \<in> set separators")
    case True
    then have "SkipToken (c # bytes) = c # bytes"
      using stop by (cases "c = NUL"; cases "(of_char c :: nat) \<le> 31"; cases "c \<in> set token_switch_labels"; simp)
    moreover have "dropWhile (\<lambda>c. \<not> (is_CTL c \<or> c \<in> set separators)) (c # bytes) = c # bytes"
      using True by auto
    ultimately show ?thesis by (simp only:)
  next
    case False
    then have n: "c \<noteq> NUL" "\<not> (of_char c :: nat) \<le> 31" "c \<notin> set token_switch_labels"
      using stop by blast+
    then have "SkipToken (c # bytes) = SkipToken bytes" by simp
    moreover have "dropWhile (\<lambda>c. \<not> (is_CTL c \<or> c \<in> set separators)) (c # bytes)
        = dropWhile (\<lambda>c. \<not> (is_CTL c \<or> c \<in> set separators)) bytes"
      using False by auto
    ultimately show ?thesis using 2[OF n] by (simp only:)
  qed
qed


lemma SkipCodedURL_first_gt:
  "SkipCodedURL bytes = dropWhile (\<lambda>c. c \<noteq> NUL \<and> c \<noteq> CHR ''>'') bytes"
  by (induction bytes rule: SkipCodedURL.induct) auto

text \<open>
  Claim C7. For every C string, \<^verbatim>\<open>SkipToken\<close> returns the suffix that starts at
  the first character that is a CTL (octets 0 to 31 and 127, so also the terminating
  NUL) or a separator, and the empty suffix when there is none; \<^verbatim>\<open>SkipLWS\<close> passes
  a sequence of units, each a SP, an HT or a CRLF followed by a SP or an HT, and stops
  where no such unit starts; \<^verbatim>\<open>SkipCodedURL\<close> returns the suffix that starts at the
  first \<^verbatim>\<open>>\<close> or NUL, and the empty suffix when there is none.
\<close>

theorem lexers_stop_where_specified:
  "SkipToken bytes = dropWhile (\<lambda>c. \<not> (is_CTL c \<or> c \<in> set separators)) bytes
   \<and> (\<exists>units. bytes = concat units @ SkipLWS bytes
          \<and> (\<forall>u \<in> set units. u \<in> set lws_units)
          \<and> \<not> (\<exists>u \<in> set lws_units. prefix u (SkipLWS bytes)))
   \<and> SkipCodedURL bytes = dropWhile (\<lambda>c. c \<noteq> NUL \<and> c \<noteq> CHR ''>'') bytes"
proof (intro conjI)
  show "SkipToken bytes = dropWhile (\<lambda>c. \<not> (is_CTL c \<or> c \<in> set separators)) bytes"
    by (rule SkipToken_first_terminator)
  show "SkipCodedURL bytes = dropWhile (\<lambda>c. c \<noteq> NUL \<and> c \<noteq> CHR ''>'') bytes"
    by (rule SkipCodedURL_first_gt)
  obtain units where "bytes = concat units @ SkipLWS bytes" "\<forall>u \<in> set units. u \<in> set lws_units"
    using SkipLWS_units by blast
  then show "\<exists>units. bytes = concat units @ SkipLWS bytes
          \<and> (\<forall>u \<in> set units. u \<in> set lws_units)
          \<and> \<not> (\<exists>u \<in> set lws_units. prefix u (SkipLWS bytes))"
    using SkipLWS_maximal by blast
qed

text \<open>The theorem at concrete strings: a token before a comma, white space with a folded
  line before a bare CRLF, a Coded-URL.\<close>

theorem lexers_stop_where_specified_witness:
  "SkipToken [CHR ''a'', CHR ''b'', CHR '','', CHR ''c''] = [CHR '','', CHR ''c'']
   \<and> SkipLWS [SP, CR, LF, HT, CR, LF, CHR ''x''] = [CR, LF, CHR ''x'']
   \<and> SkipCodedURL [CHR ''u'', CHR ''>'', CHR ''v''] = [CHR ''>'', CHR ''v'']
   \<and> (\<exists>units. [SP, CR, LF, HT, CR, LF, CHR ''x''] = concat units @ [CR, LF, CHR ''x'']
          \<and> (\<forall>u \<in> set units. u \<in> set lws_units))"
proof -
  have lws: "SkipLWS [SP, CR, LF, HT, CR, LF, CHR ''x''] = [CR, LF, CHR ''x'']"
    by (simp add: char_defs)
  have "\<exists>units. [SP, CR, LF, HT, CR, LF, CHR ''x'']
            = concat units @ SkipLWS [SP, CR, LF, HT, CR, LF, CHR ''x'']
          \<and> (\<forall>u \<in> set units. u \<in> set lws_units)"
    using lexers_stop_where_specified [of "[SP, CR, LF, HT, CR, LF, CHR ''x'']"] by blast
  then have "\<exists>units. [SP, CR, LF, HT, CR, LF, CHR ''x''] = concat units @ [CR, LF, CHR ''x'']
          \<and> (\<forall>u \<in> set units. u \<in> set lws_units)"
    by (simp only: lws)
  moreover have "SkipToken [CHR ''a'', CHR ''b'', CHR '','', CHR ''c''] = [CHR '','', CHR ''c'']"
    by (simp add: char_defs token_switch_labels_def)
  moreover have "SkipCodedURL [CHR ''u'', CHR ''>'', CHR ''v''] = [CHR ''>'', CHR ''v'']"
    by (simp add: char_defs)
  ultimately show ?thesis using lws by blast
qed

subsection \<open>The status table\<close>

text \<open>
  Claim C1. The claim asks for ENAMETOOLONG at status 414 and EBUSY at 423 and 424. The
  code returns EBUSY at all three: the arm of 414 has no \<^verbatim>\<open>break\<close>, so its
  ENAMETOOLONG is overwritten by the next arm.
\<close>

theorem status_414_falls_through:
  "translate_status_to_error 414 = EBUSY
   \<and> translate_status_to_error 414 \<noteq> ENAMETOOLONG
   \<and> translate_status_to_error 423 = EBUSY
   \<and> translate_status_to_error 424 = EBUSY"
  by (simp add: translate_status_to_error_def client_error_4xx_def errno_defs)

lemma status_range_unat:
  "((s::32 word) div 100 = 1) = (unat s div 100 = 1)"
  "((s::32 word) div 100 = 2) = (unat s div 100 = 2)"
  "((s::32 word) div 100 = 3) = (unat s div 100 = 3)"
  "((s::32 word) div 100 = 4) = (unat s div 100 = 4)"
  "((s::32 word) div 100 = 5) = (unat s div 100 = 5)"
  by (simp_all add: word_unat_eq_iff unat_div)

lemma status_2xx: "200 \<le> unat s \<Longrightarrow> unat s \<le> 299 \<Longrightarrow> translate_status_to_error s = 0"
proof -
  assume "200 \<le> unat s" "unat s \<le> 299"
  then have "unat s div 100 = 2" by arith
  then show ?thesis by (simp add: translate_status_to_error_def status_range_unat)
qed

lemma status_other_4xx:
  assumes "400 \<le> unat s" "unat s \<le> 499"
    and "s \<notin> {401, 402, 403, 404, 407, 409, 410, 414, 423, 424}"
  shows "translate_status_to_error s = EINVAL"
proof -
  have "unat s div 100 = 4" using assms(1,2) by arith
  then show ?thesis using assms(3)
    by (simp add: translate_status_to_error_def status_range_unat client_error_4xx_def)
qed

lemma status_1xx_3xx_5xx:
  assumes "(100 \<le> unat s \<and> unat s \<le> 199) \<or> (300 \<le> unat s \<and> unat s \<le> 399)
        \<or> (500 \<le> unat s \<and> unat s \<le> 599 \<and> s \<noteq> 507)"
  shows "translate_status_to_error s = ENOENT"
proof -
  consider "unat s div 100 = 1" | "unat s div 100 = 3" | "unat s div 100 = 5" "s \<noteq> 507"
    using assms by arith
  then show ?thesis
    by cases (simp_all add: translate_status_to_error_def status_range_unat)
qed

text \<open>
  Claim C9. The rest of the table: every status from 200 to 299 gives 0; 402 and 403
  give EPERM; 404, 409 and 410 give ENOENT; 507 gives ENOSPC; a status from 400 to 499
  that the table does not list (it lists 401, 402, 403, 404, 407, 409, 410, 414, 423 and
  424) gives EINVAL; a status from 100 to 199, from 300 to 399, or from 500 to 599
  other than 507 gives ENOENT.
\<close>

theorem status_table_remainder:
  "(200 \<le> unat s \<and> unat s \<le> 299 \<longrightarrow> translate_status_to_error s = 0)
   \<and> (s = 402 \<or> s = 403 \<longrightarrow> translate_status_to_error s = EPERM)
   \<and> (s = 404 \<or> s = 409 \<or> s = 410 \<longrightarrow> translate_status_to_error s = ENOENT)
   \<and> (s = 507 \<longrightarrow> translate_status_to_error s = ENOSPC)
   \<and> (400 \<le> unat s \<and> unat s \<le> 499
        \<and> s \<notin> {401, 402, 403, 404, 407, 409, 410, 414, 423, 424}
        \<longrightarrow> translate_status_to_error s = EINVAL)
   \<and> ((100 \<le> unat s \<and> unat s \<le> 199) \<or> (300 \<le> unat s \<and> unat s \<le> 399)
        \<or> (500 \<le> unat s \<and> unat s \<le> 599 \<and> s \<noteq> 507)
        \<longrightarrow> translate_status_to_error s = ENOENT)"
proof (intro conjI impI)
  show "translate_status_to_error s = 0" if "200 \<le> unat s \<and> unat s \<le> 299"
    using that status_2xx by blast
  show "translate_status_to_error s = EPERM" if "s = 402 \<or> s = 403"
    using that by (auto simp: translate_status_to_error_def client_error_4xx_def)
  show "translate_status_to_error s = ENOENT" if "s = 404 \<or> s = 409 \<or> s = 410"
    using that by (auto simp: translate_status_to_error_def client_error_4xx_def)
  show "translate_status_to_error s = ENOSPC" if "s = 507"
    using that by (simp add: translate_status_to_error_def)
  show "translate_status_to_error s = EINVAL"
    if "400 \<le> unat s \<and> unat s \<le> 499 \<and> s \<notin> {401, 402, 403, 404, 407, 409, 410, 414, 423, 424}"
    using that status_other_4xx by blast
  show "translate_status_to_error s = ENOENT"
    if "(100 \<le> unat s \<and> unat s \<le> 199) \<or> (300 \<le> unat s \<and> unat s \<le> 399)
        \<or> (500 \<le> unat s \<and> unat s \<le> 599 \<and> s \<noteq> 507)"
    using that by (rule status_1xx_3xx_5xx)
qed

text \<open>The table at 204, 403, 409, 507, 418, 302 and 500.\<close>

theorem status_table_remainder_witness:
  "translate_status_to_error 204 = 0
   \<and> translate_status_to_error 403 = EPERM
   \<and> translate_status_to_error 409 = ENOENT
   \<and> translate_status_to_error 507 = ENOSPC
   \<and> translate_status_to_error 418 = EINVAL
   \<and> translate_status_to_error 302 = ENOENT
   \<and> translate_status_to_error 500 = ENOENT"
  using status_table_remainder [of 204] status_table_remainder [of 403]
    status_table_remainder [of 409] status_table_remainder [of 507]
    status_table_remainder [of 418] status_table_remainder [of 302]
    status_table_remainder [of 500]
  by simp

subsection \<open>The DAV level\<close>

text \<open>
  \<^verbatim>\<open>SkipLWS\<close> passes every sequence of white-space units and stops at a character
  that starts none.
\<close>

lemma SkipLWS_unit:
  assumes "u \<in> set lws_units"
  shows "SkipLWS (u @ bytes) = SkipLWS bytes"
proof -
  have "u = [SP] \<or> u = [HT] \<or> u = [CR, LF, SP] \<or> u = [CR, LF, HT]"
    using assms by (simp add: lws_units_def)
  then show ?thesis
    using SkipLWS_blank [of SP bytes] SkipLWS_blank [of HT bytes]
      SkipLWS_fold [of SP bytes] SkipLWS_fold [of HT bytes]
    by (elim disjE) (simp_all del: SkipLWS.simps)
qed

lemma SkipLWS_concat_units:
  assumes "list_all (\<lambda>u. u \<in> set lws_units) units"
  shows "SkipLWS (concat units @ bytes) = SkipLWS bytes"
  using assms
proof (induction units)
  case Nil
  then show ?case by simp
next
  case (Cons u units)
  then have "SkipLWS (u @ (concat units @ bytes)) = SkipLWS (concat units @ bytes)"
    by (intro SkipLWS_unit) simp
  then show ?case using Cons by (simp del: SkipLWS.simps)
qed

lemma SkipLWS_noop:
  assumes "bytes = [] \<or> (hd bytes \<noteq> SP \<and> hd bytes \<noteq> HT \<and> hd bytes \<noteq> CR)"
  shows "SkipLWS bytes = bytes"
proof (cases bytes)
  case Nil
  then show ?thesis by simp
next
  case (Cons c bs)
  then show ?thesis using assms SkipLWS_stop[of c bs] by simp
qed

lemma units_start:
  assumes "list_all (\<lambda>u. u \<in> set lws_units) units" "concat units \<noteq> []"
  shows "hd (concat units) = SP \<or> hd (concat units) = HT \<or> hd (concat units) = CR"
  using assms
proof (induction units)
  case Nil
  then show ?case by simp
next
  case (Cons u units)
  have "u = [SP] \<or> u = [HT] \<or> u = [CR, LF, SP] \<or> u = [CR, LF, HT]"
    using Cons.prems(1) by (simp add: lws_units_def)
  then show ?case by auto
qed

lemma lws_char_facts:
  assumes "c = SP \<or> c = HT \<or> c = CR"
  shows "c \<noteq> NUL" "c \<noteq> CHR '',''" "is_CTL c \<or> c \<in> set separators"
proof -
  have ctl: "is_CTL HT" "is_CTL CR"
    by (simp_all add: is_CTL_def char_defs)
  have sep: "SP \<in> set separators"
    by (simp add: separators_def)
  show "is_CTL c \<or> c \<in> set separators" using assms ctl sep by blast
  have "SP \<noteq> NUL" "HT \<noteq> NUL" "CR \<noteq> NUL"
    by (simp_all add: char_defs)
  then show "c \<noteq> NUL" using assms by auto
  have "SP \<noteq> CHR '',''" "HT \<noteq> CHR '',''" "CR \<noteq> CHR '',''"
    by (simp_all add: char_defs)
  then show "c \<noteq> CHR '',''" using assms by auto
qed

lemma token_char_facts:
  assumes "\<not> is_CTL c" "c \<notin> set separators"
  shows "c \<noteq> NUL" "c \<noteq> SP" "c \<noteq> HT" "c \<noteq> CR" "c \<noteq> CHR ''<''" "c \<noteq> CHR '',''"
proof -
  have ctl: "is_CTL NUL" "is_CTL HT" "is_CTL CR"
    by (simp_all add: is_CTL_def char_defs)
  have sep: "SP \<in> set separators" "CHR ''<'' \<in> set separators" "CHR '','' \<in> set separators"
    by (simp_all add: separators_def)
  show "c \<noteq> NUL" "c \<noteq> HT" "c \<noteq> CR" using assms(1) ctl by blast+
  show "c \<noteq> SP" "c \<noteq> CHR ''<''" "c \<noteq> CHR '',''" using assms(2) sep by blast+
qed

lemma SkipToken_token:
  assumes "list_all (\<lambda>c. \<not> is_CTL c \<and> c \<notin> set separators) t"
    and "tail = [] \<or> is_CTL (hd tail) \<or> hd tail \<in> set separators"
  shows "SkipToken (t @ tail) = tail"
proof -
  have "SkipToken (t @ tail) = dropWhile (\<lambda>c. \<not> (is_CTL c \<or> c \<in> set separators)) tail"
    unfolding SkipToken_first_terminator using assms(1)
    by (intro dropWhile_append2) (simp add: list_all_iff)
  also have "\<dots> = tail"
  proof (cases tail)
    case Nil
    then show ?thesis by simp
  next
    case (Cons c cs)
    then have "is_CTL c \<or> c \<in> set separators" using assms(2) by simp
    then show ?thesis using Cons by auto
  qed
  finally show ?thesis .
qed

lemma SkipCodedURL_url:
  assumes "list_all (\<lambda>c. c \<noteq> NUL \<and> c \<noteq> CHR ''>'') u"
  shows "SkipCodedURL (u @ CHR ''>'' # tail) = CHR ''>'' # tail"
proof -
  have "SkipCodedURL (u @ CHR ''>'' # tail)
      = dropWhile (\<lambda>c. c \<noteq> NUL \<and> c \<noteq> CHR ''>'') (CHR ''>'' # tail)"
    unfolding SkipCodedURL_first_gt using assms
    by (intro dropWhile_append2) (simp add: list_all_iff)
  then show ?thesis by simp
qed

lemma dav_value_extend:
  assumes "well_formed_extend e" "0 \<le> dav_level"
    and "tail = [] \<or> is_CTL (hd tail) \<or> hd tail \<in> set separators"
  shows "dav_value dav_level (extend_text e @ tail) = (max dav_level (extend_level e), tail)"
proof (cases e)
  case (Coded_URL u)
  then have "SkipCodedURL (u @ CHR ''>'' # tail) = CHR ''>'' # tail"
    using assms(1) SkipCodedURL_url by simp
  then show ?thesis using Coded_URL assms(2)
    by (simp add: dav_value_def cur_def NUL_def)
next
  case (Token t)
  then obtain c cs where t: "t = c # cs" and wf: "list_all (\<lambda>c. \<not> is_CTL c \<and> c \<notin> set separators) t"
    using assms(1) by (cases t) auto
  have c: "c \<noteq> CHR ''<''" using wf t token_char_facts(5) by simp
  have skip: "SkipToken (t @ tail) = tail" using wf assms(3) by (rule SkipToken_token)
  have "cur (extend_text e @ tail) = c" using Token t by (simp add: cur_def)
  then show ?thesis using Token t c skip assms(2)
    by (auto simp: dav_value_def Let_def)
qed

lemma dav_value_comma:
  "dav_value dav_level (CHR '','' # others) = (dav_level, CHR '','' # others)"
  by (simp add: dav_value_def cur_def Let_def token_switch_labels_def NUL_def)

lemma extend_text_start:
  assumes "well_formed_extend e"
  shows "\<exists>c cs. extend_text e = c # cs \<and> c \<noteq> NUL \<and> c \<noteq> SP \<and> c \<noteq> HT \<and> c \<noteq> CR \<and> c \<noteq> CHR '',''"
proof (cases e)
  case (Coded_URL u)
  then show ?thesis by (simp add: char_defs)
next
  case (Token t)
  then show ?thesis using assms token_char_facts(1,2,3,4,6) by (cases t) auto
qed

lemma max_level_nonneg: "0 \<le> max_level elements"
  by (induction elements rule: max_level.induct) auto

lemma parse_dav_values_step:
  assumes "cur field_value \<noteq> NUL" "SkipLWS field_value = item @ after_value"
    and "cur (item @ after_value) \<noteq> NUL"
    and "dav_value dav_level (item @ after_value) = (dav_level', after_value)"
    and "SkipLWS after_value = tail" and "tail = [] \<or> (\<exists>others. tail = CHR '','' # others)"
  shows "parse_dav_values dav_level field_value =
     (if tail = [] then dav_level'
      else parse_dav_values dav_level' (dropWhile (\<lambda>c. c = CHR '','') tail))"
proof (cases "tail = []")
  case True
  then show ?thesis using assms(1-5)
    by (subst parse_dav_values.simps) (simp add: cur_def del: parse_dav_values.simps)
next
  case False
  then obtain others where "tail = CHR '','' # others" using assms(6) by blast
  then have "cur tail \<noteq> NUL" "cur tail = CHR '',''" by (simp_all add: cur_def NUL_def)
  then show ?thesis using assms(1-5) False
    by (subst parse_dav_values.simps) (simp del: parse_dav_values.simps)
qed

text \<open>
  The main loop on a well-formed header, by induction on the elements: each round passes
  one element and the commas after it. The statement holds also after leading commas,
  which is where a round leaves the loop when null elements follow.
\<close>

lemma parse_dav_values_empty: "parse_dav_values dav_level [] = dav_level"
  by (subst parse_dav_values.simps) (simp add: cur_def)

lemma units_text:
  assumes "list_all (\<lambda>u. u \<in> set lws_units) units"
  shows "concat units = [] \<or> (\<exists>c cs. concat units = c # cs \<and> (c = SP \<or> c = HT \<or> c = CR))"
proof (cases "concat units")
  case Nil
  then show ?thesis by simp
next
  case (Cons c cs)
  then have "hd (concat units) = SP \<or> hd (concat units) = HT \<or> hd (concat units) = CR"
    using units_start [OF assms] by simp
  then show ?thesis using Cons by simp
qed

lemma cur_after_units:
  assumes "list_all (\<lambda>u. u \<in> set lws_units) units" "cur bytes \<noteq> NUL"
  shows "cur (concat units @ bytes) \<noteq> NUL"
proof (cases "concat units")
  case Nil
  show ?thesis unfolding Nil using assms(2) by simp
next
  case (Cons c cs)
  then have "c = SP \<or> c = HT \<or> c = CR"
    using units_text [OF assms(1)] by simp
  then have "c \<noteq> NUL" by (rule lws_char_facts(1))
  then show ?thesis using Cons by (simp add: cur_def)
qed

lemma SkipLWS_comma: "SkipLWS (CHR '','' # others) = CHR '','' # others"
  by (intro SkipLWS_noop) (simp add: char_defs)

lemma parse_dav_values_header:
  assumes "list_all well_formed_element elements" "0 \<le> dav_level"
  shows "parse_dav_values dav_level (dav_header_text elements) = max dav_level (max_level elements)
     \<and> parse_dav_values dav_level (dropWhile (\<lambda>c. c = CHR '','') (dav_header_text elements))
         = max dav_level (max_level elements)"
  using assms
proof (induction elements arbitrary: dav_level)
  case Nil
  then show ?case by (simp add: parse_dav_values_empty del: parse_dav_values.simps)
next
  case (Cons element rest)
  obtain before e after where element: "element = (before, e, after)"
    by (cases element)
  have wfb: "list_all (\<lambda>u. u \<in> set lws_units) before"
    and wfa: "list_all (\<lambda>u. u \<in> set lws_units) after"
    and wfe: "case e of None \<Rightarrow> True | Some e \<Rightarrow> well_formed_extend e"
    and wfr: "list_all well_formed_element rest"
    using Cons.prems(1) element by simp_all
  define tail where "tail = (if rest = [] then [] else CHR '','' # dav_header_text rest)"
  define item where "item = (case e of None \<Rightarrow> [] | Some e \<Rightarrow> extend_text e)"
  define field_value where "field_value = dav_header_text (element # rest)"
  have shape: "field_value = concat before @ item @ concat after @ tail"
    unfolding field_value_def using element by (cases rest) (simp_all add: tail_def item_def)
  have tail: "tail = [] \<or> (\<exists>others. tail = CHR '','' # others)"
    by (simp add: tail_def)
  have lws_tail: "SkipLWS tail = tail"
    using tail SkipLWS_comma by auto
  have after_tail: "SkipLWS (concat after @ tail) = tail"
    using SkipLWS_concat_units [OF wfa, of tail] lws_tail by simp
  have levels: "max_level (element # rest) = max (element_level element) (max_level rest)"
    by simp
  have next_round: "(if tail = [] then dav_level'
        else parse_dav_values dav_level' (dropWhile (\<lambda>c. c = CHR '','') tail))
      = max dav_level' (max_level rest)" if "0 \<le> dav_level'" for dav_level'
  proof (cases "rest = []")
    case True
    then show ?thesis using that by (simp add: tail_def)
  next
    case False
    then have "dropWhile (\<lambda>c. c = CHR '','') tail
        = dropWhile (\<lambda>c. c = CHR '','') (dav_header_text rest)"
      by (simp add: tail_def)
    then show ?thesis using False Cons.IH [OF wfr that] by (simp add: tail_def)
  qed
  have first: "parse_dav_values dav_level field_value = max dav_level (max_level (element # rest))"
    and start: "field_value = [] \<or> hd field_value \<noteq> CHR '',''
        \<or> (field_value = tail \<and> e = None)"
  proof -
    show "parse_dav_values dav_level field_value = max dav_level (max_level (element # rest))"
    proof (cases e)
      case (Some ext)
      then have wf: "well_formed_extend ext" using wfe by simp
      obtain c cs where c: "extend_text ext = c # cs" "c \<noteq> NUL" "c \<noteq> SP" "c \<noteq> HT" "c \<noteq> CR"
        using extend_text_start [OF wf] by blast
      have it: "item = extend_text ext" using Some by (simp add: item_def)
      have "cur (item @ concat after @ tail) \<noteq> NUL"
        using it c by (simp add: cur_def)
      then have nonempty: "cur field_value \<noteq> NUL"
        unfolding shape using wfb by (intro cur_after_units)
      have "SkipLWS (item @ concat after @ tail) = item @ concat after @ tail"
        using it c by (intro SkipLWS_noop) simp
      then have skipped: "SkipLWS field_value = item @ (concat after @ tail)"
        unfolding shape using SkipLWS_concat_units [OF wfb, of "item @ concat after @ tail"]
        by simp
      have at_item: "cur (item @ (concat after @ tail)) \<noteq> NUL"
        using it c by (simp add: cur_def)
      have stop: "concat after @ tail = [] \<or> is_CTL (hd (concat after @ tail))
          \<or> hd (concat after @ tail) \<in> set separators"
      proof (cases "concat after = []")
        case True
        have "CHR '','' \<in> set separators" by (simp add: separators_def)
        then show ?thesis unfolding True using tail by auto
      next
        case False
        then obtain a as where "concat after = a # as" "a = SP \<or> a = HT \<or> a = CR"
          using units_text [OF wfa] by blast
        then show ?thesis using lws_char_facts(3) [of a] by simp
      qed
      have dv: "dav_value dav_level (item @ (concat after @ tail))
          = (max dav_level (extend_level ext), concat after @ tail)"
        unfolding it using wf Cons.prems(2) stop by (rule dav_value_extend)
      have "parse_dav_values dav_level field_value
          = (if tail = [] then max dav_level (extend_level ext)
             else parse_dav_values (max dav_level (extend_level ext))
                    (dropWhile (\<lambda>c. c = CHR '','') tail))"
        using nonempty skipped at_item dv after_tail tail by (rule parse_dav_values_step)
      also have "\<dots> = max (max dav_level (extend_level ext)) (max_level rest)"
        using Cons.prems(2) by (intro next_round) simp
      finally show ?thesis using element Some by simp
    next
      case None
      then have it: "item = []" by (simp add: item_def)
      have level: "max dav_level (max_level (element # rest)) = max dav_level (max_level rest)"
        using element None max_level_nonneg [of rest] by simp
      have wfba: "list_all (\<lambda>u. u \<in> set lws_units) (before @ after)"
        using wfb wfa by simp
      have shape': "field_value = concat (before @ after) @ tail"
        using shape it by simp
      have skipped: "SkipLWS field_value = [] @ tail"
        unfolding shape' using SkipLWS_concat_units [OF wfba, of tail] lws_tail by simp
      show ?thesis
      proof (cases "tail = []")
        case True
        then have rest: "rest = []" by (simp add: tail_def split: if_splits)
        have "parse_dav_values dav_level field_value = dav_level"
          using skipped True by (subst parse_dav_values.simps) (simp add: cur_def)
        then show ?thesis using level rest Cons.prems(2) by simp
      next
        case False
        then obtain others where others: "tail = CHR '','' # others" using tail by blast
        have "cur tail \<noteq> NUL"
          using others by (simp add: cur_def NUL_def)
        then have nonempty: "cur field_value \<noteq> NUL"
          unfolding shape' using wfba by (intro cur_after_units)
        have at_item: "cur ([] @ tail) \<noteq> NUL"
          using others by (simp add: cur_def NUL_def)
        have dv: "dav_value dav_level ([] @ tail) = (dav_level, tail)"
          using others dav_value_comma by simp
        have "parse_dav_values dav_level field_value
            = (if tail = [] then dav_level
               else parse_dav_values dav_level (dropWhile (\<lambda>c. c = CHR '','') tail))"
          using nonempty skipped at_item dv lws_tail tail by (rule parse_dav_values_step)
        also have "\<dots> = max dav_level (max_level rest)"
          using Cons.prems(2) by (rule next_round)
        finally show ?thesis using level by simp
      qed
    qed
    show "field_value = [] \<or> hd field_value \<noteq> CHR '','' \<or> (field_value = tail \<and> e = None)"
    proof (cases "concat before = []")
      case False
      then obtain a as where "concat before = a # as" "a = SP \<or> a = HT \<or> a = CR"
        using units_text [OF wfb] by blast
      then show ?thesis using lws_char_facts(2) [of a] shape by simp
    next
      case True
      have shape0: "field_value = item @ concat after @ tail"
        using shape unfolding True by simp
      show ?thesis
      proof (cases e)
        case (Some ext)
        then obtain c cs where "extend_text ext = c # cs" "c \<noteq> CHR '',''"
          using extend_text_start [of ext] wfe by auto
        then show ?thesis using shape0 Some by (simp add: item_def)
      next
        case None
        then have shape1: "field_value = concat after @ tail"
          using shape0 by (simp add: item_def)
        show ?thesis
        proof (cases "concat after = []")
          case True
          have "field_value = tail" using shape1 unfolding True by simp
          then show ?thesis using None by simp
        next
          case False
          then obtain a as where "concat after = a # as" "a = SP \<or> a = HT \<or> a = CR"
            using units_text [OF wfa] by blast
          then show ?thesis using lws_char_facts(2) [of a] shape1 by simp
        qed
      qed
    qed
  qed
  have second: "parse_dav_values dav_level (dropWhile (\<lambda>c. c = CHR '','') field_value)
      = max dav_level (max_level (element # rest))"
  proof (cases "field_value = [] \<or> hd field_value \<noteq> CHR '',''")
    case True
    then have "dropWhile (\<lambda>c. c = CHR '','') field_value = field_value"
      by (cases field_value) auto
    then show ?thesis using first by simp
  next
    case False
    then have ft: "field_value = tail" and none: "e = None" using start by blast+
    then have "rest \<noteq> []" using False by (auto simp: tail_def)
    then have "dropWhile (\<lambda>c. c = CHR '','') field_value
        = dropWhile (\<lambda>c. c = CHR '','') (dav_header_text rest)"
      using ft by (simp add: tail_def)
    then have "parse_dav_values dav_level (dropWhile (\<lambda>c. c = CHR '','') field_value)
        = max dav_level (max_level rest)"
      using Cons.IH [OF wfr Cons.prems(2)] by simp
    then show ?thesis using element none max_level_nonneg [of rest] by simp
  qed
  show ?case using first second by (simp only: field_value_def)
qed

lemma dav_examples:
  "parse_dav_values 0 ''1'' = 1"
  "parse_dav_values 0 ''1, 2'' = 2"
  "parse_dav_values 0 ''1,2,<http://x/>'' = 2"
  "parse_dav_values 0 ''2,1'' = 2"
  "parse_dav_values 0 ''<http://x/>,1'' = 1"
  "parse_dav_values 0 [] = 0"
  by code_simp+

text \<open>
  Claim C5, with the condition the code adds. \<^verbatim>\<open>ParseDAVLevel\<close> reads the C
  string of the header through \<^verbatim>\<open>CFStringGetCStringPtr\<close> or, when that gives
  NULL, through a buffer of 4096 bytes; a value that does not fit the buffer leaves the
  level 0. Otherwise, for a DAV header that is a comma-separated list of elements, each a
  token, a Coded-URL or nothing, with linear white space before and after it,
  \<^verbatim>\<open>ParseDAVLevel\<close> computes the greatest of the levels 1 and 2 among the
  one-character tokens, Coded-URLs and other tokens counting for nothing. For the header
  values \<^verbatim>\<open>1\<close>, \<^verbatim>\<open>1, 2\<close>, \<^verbatim>\<open>1,2,<http://x/>\<close>, \<^verbatim>\<open>2,1\<close> and
  \<^verbatim>\<open><http://x/>,1\<close> the level is 1, 2, 2, 2 and 1, and for the empty header and
  for a response without the header it is 0.
\<close>

theorem ParseDAVLevel_max_of_1_and_2:
  "(CFHTTPMessageCopyHeaderFieldValue response ''DAV'' = Some (dav_header_text elements)
      \<and> list_all well_formed_element elements
      \<longrightarrow> ParseDAVLevel has_cstring_ptr response =
            (if has_cstring_ptr \<or> length (dav_header_text elements) < 4096
             then max_level elements else 0))
   \<and> ParseDAVLevel p \<lparr>responseStatusCode = 200, headerFields = [(''DAV'', ''1'')]\<rparr> = 1
   \<and> ParseDAVLevel p \<lparr>responseStatusCode = 200, headerFields = [(''DAV'', ''1, 2'')]\<rparr> = 2
   \<and> ParseDAVLevel p \<lparr>responseStatusCode = 200, headerFields = [(''DAV'', ''1,2,<http://x/>'')]\<rparr> = 2
   \<and> ParseDAVLevel p \<lparr>responseStatusCode = 200, headerFields = [(''DAV'', ''2,1'')]\<rparr> = 2
   \<and> ParseDAVLevel p \<lparr>responseStatusCode = 200, headerFields = [(''DAV'', ''<http://x/>,1'')]\<rparr> = 1
   \<and> ParseDAVLevel p \<lparr>responseStatusCode = 200, headerFields = [(''DAV'', [])]\<rparr> = 0
   \<and> ParseDAVLevel p \<lparr>responseStatusCode = 200, headerFields = []\<rparr> = 0"
proof (intro conjI impI)
  assume a: "CFHTTPMessageCopyHeaderFieldValue response ''DAV'' = Some (dav_header_text elements)
      \<and> list_all well_formed_element elements"
  show "ParseDAVLevel has_cstring_ptr response =
            (if has_cstring_ptr \<or> length (dav_header_text elements) < 4096
             then max_level elements else 0)"
  proof (cases "has_cstring_ptr \<or> length (dav_header_text elements) < 4096")
    case True
    then have "ParseDAVLevel has_cstring_ptr response = parse_dav_values 0 (dav_header_text elements)"
      using a by (auto simp: ParseDAVLevel_def simp del: parse_dav_values.simps)
    also have "\<dots> = max 0 (max_level elements)"
      using a parse_dav_values_header [of elements 0] by simp
    also have "\<dots> = max_level elements"
      using max_level_nonneg [of elements] by simp
    finally show ?thesis using True by simp
  next
    case False
    then show ?thesis using a by (simp add: ParseDAVLevel_def del: parse_dav_values.simps)
  qed
qed (simp_all add: ParseDAVLevel_def CFHTTPMessageCopyHeaderFieldValue_def dav_examples
       del: parse_dav_values.simps)

text \<open>
  The general part at a header with white space before a comma, a tab, a Coded-URL, a
  null element and an extension token.
\<close>

theorem ParseDAVLevel_max_of_1_and_2_witness:
  "ParseDAVLevel False
     \<lparr>responseStatusCode = 200,
      headerFields = [(''DAV'', ''1 ,'' @ HT # ''2,<http://x/>,, ext'')]\<rparr> = 2"
proof -
  let ?elements = "[([], Some (Token ''1''), [[SP]]), ([[HT]], Some (Token ''2''), []),
      ([], Some (Coded_URL ''http://x/''), []), ([], None, []), ([[SP]], Some (Token ''ext''), [])]"
  let ?response = "\<lparr>responseStatusCode = 200,
      headerFields = [(''DAV'', ''1 ,'' @ HT # ''2,<http://x/>,, ext'')]\<rparr>"
  have h: "dav_header_text ?elements = ''1 ,'' @ HT # ''2,<http://x/>,, ext''"
    by (simp add: SP_def)
  have "CFHTTPMessageCopyHeaderFieldValue ?response ''DAV'' = Some (dav_header_text ?elements)"
    unfolding h by (simp add: CFHTTPMessageCopyHeaderFieldValue_def)
  moreover have "list_all well_formed_element ?elements"
    by (simp add: is_CTL_def separators_def lws_units_def char_defs)
  moreover have "length (dav_header_text ?elements) < 4096"
    unfolding h by simp
  ultimately have "ParseDAVLevel False ?response = max_level ?elements"
    using ParseDAVLevel_max_of_1_and_2 [of ?response ?elements False] by simp
  then show ?thesis by simp
qed

text \<open>
  Claim C5 as stated fails at a header of 4096 bytes whose string gives no C-string
  pointer: the header is the token 2 and a token of 4094 letters, the greatest level
  among its one-character tokens is 2, and the level computed is 0. With the pointer the
  same header gives 2.
\<close>

theorem ParseDAVLevel_long_header:
  "list_all well_formed_element
     [([], Some (Token ''2''), []), ([], Some (Token (replicate 4094 (CHR ''a''))), [])]
   \<and> dav_header_text
       [([], Some (Token ''2''), []), ([], Some (Token (replicate 4094 (CHR ''a''))), [])]
       = ''2,'' @ replicate 4094 (CHR ''a'')
   \<and> max_level
       [([], Some (Token ''2''), []), ([], Some (Token (replicate 4094 (CHR ''a''))), [])] = 2
   \<and> ParseDAVLevel False
       \<lparr>responseStatusCode = 200,
        headerFields = [(''DAV'', ''2,'' @ replicate 4094 (CHR ''a''))]\<rparr> = 0
   \<and> ParseDAVLevel True
       \<lparr>responseStatusCode = 200,
        headerFields = [(''DAV'', ''2,'' @ replicate 4094 (CHR ''a''))]\<rparr> = 2"
proof -
  let ?elements = "[([], Some (Token ''2''), []), ([], Some (Token (replicate 4094 (CHR ''a''))), [])]"
  have a: "\<not> is_CTL (CHR ''a'')" "CHR ''a'' \<notin> set separators"
    by (simp_all add: is_CTL_def separators_def char_defs)
  have two: "\<not> is_CTL (CHR ''2'')" "CHR ''2'' \<notin> set separators"
    by (simp_all add: is_CTL_def separators_def char_defs)
  have wf: "list_all well_formed_element ?elements"
    using a two by (simp add: list_all_iff)
  have h: "dav_header_text ?elements = ''2,'' @ replicate 4094 (CHR ''a'')"
    by simp
  have level: "max_level ?elements = 2"
    by simp
  have long: "ParseDAVLevel False
       \<lparr>responseStatusCode = 200,
        headerFields = [(''DAV'', ''2,'' @ replicate 4094 (CHR ''a''))]\<rparr> = 0"
    by (simp add: ParseDAVLevel_def CFHTTPMessageCopyHeaderFieldValue_def
        del: parse_dav_values.simps)
  have "parse_dav_values 0 (dav_header_text ?elements) = max 0 (max_level ?elements)"
    using parse_dav_values_header [OF wf, of 0] by simp
  then have "parse_dav_values 0 (''2,'' @ replicate 4094 (CHR ''a'')) = 2"
    unfolding h level by simp
  then have ptr: "ParseDAVLevel True
       \<lparr>responseStatusCode = 200,
        headerFields = [(''DAV'', ''2,'' @ replicate 4094 (CHR ''a''))]\<rparr> = 2"
    by (simp add: ParseDAVLevel_def CFHTTPMessageCopyHeaderFieldValue_def
        del: parse_dav_values.simps)
  show ?thesis using wf h level long ptr by (intro conjI)
qed

subsection \<open>The SSL property bag\<close>

lemma HandleSSLErrors_monotone:
  assumes "gSSLPropertiesDict s = Some dict"
    and "HandleSSLErrors dict_created helper streamError s = (result, s')"
  shows "\<exists>dict'. gSSLPropertiesDict s' = Some dict'
           \<and> (\<forall>k v. dict k = Some v \<longrightarrow>
                  dict' k = Some v
                  \<or> (k = kCFStreamSSLAllowsExpiredRoots \<and> dict' k = Some kCFBooleanTrue))"
  using assms
  by (auto simp: HandleSSLErrors_def certificate_exception_def ConfirmCertificate_def Let_def
      split: if_splits option.splits)

lemma HandleSSLErrors_exception_set:
  assumes "gSSLPropertiesDict s = Some dict"
    and "HandleSSLErrors dict_created helper streamError s = (result, s')"
    and "domain streamError = kCFStreamErrorDomainSSL"
    and "exception_key (errorCode streamError) = Some key" and "dict key \<noteq> None"
  shows "certificate_prompts s' = certificate_prompts s
     \<and> (if dict kCFStreamSSLLevel = None \<and> ssl_fallback_range (errorCode streamError)
         then result = EAGAIN
              \<and> gSSLPropertiesDict s' = Some (dict(kCFStreamSSLLevel \<mapsto> kCFStreamSocketSecurityLevelSSLv3))
         else result = EIO \<and> s' = s)"
  using assms
  by (auto simp: HandleSSLErrors_def certificate_exception_def exception_key_def Let_def
      split: if_splits)

lemma HandleSSLErrors_level_pinned:
  assumes "gSSLPropertiesDict s = Some dict"
    and "HandleSSLErrors dict_created helper streamError s = (result, s')"
    and "dict kCFStreamSSLLevel \<noteq> None" and "exception_key (errorCode streamError) = None"
  shows "result = EIO \<and> s' = s"
  using assms
  by (auto simp: HandleSSLErrors_def certificate_exception_def exception_key_def Let_def
      split: if_splits)

lemma fallback_and_exception:
  "(ssl_fallback_range sslError \<and> exception_key sslError \<noteq> None) = (sslError = errSSLHostNameMismatch)"
  by (auto simp: ssl_fallback_range_def exception_key_def errSSL_defs split: if_splits)

text \<open>
  What the code does once the bag holds an entry. \<^verbatim>\<open>HandleSSLErrors\<close> never removes
  an entry of the bag, and changes the value of none but
  \<^verbatim>\<open>kCFStreamSSLAllowsExpiredRoots\<close>, which it sets to true again. Once the bag holds
  the entry of a certificate fault class (expired certificates allowed, chain validation
  disabled, any root allowed), a later SSL error of that class never runs the certificate
  helper; it returns EIO and changes nothing, unless the SSL level is not yet pinned and
  the code lies in the fallback ranges. Once the level is pinned, an error that is not a
  certificate fault returns EIO and changes nothing. The one certificate fault whose code
  lies in the fallback ranges is \<^verbatim>\<open>errSSLHostNameMismatch\<close>.
\<close>

lemma HandleSSLErrors_exceptions_stay:
  assumes "gSSLPropertiesDict s = Some dict"
    and "HandleSSLErrors dict_created helper streamError s = (result, s')"
  shows "(\<exists>dict'. gSSLPropertiesDict s' = Some dict'
           \<and> (\<forall>k v. dict k = Some v \<longrightarrow>
                  dict' k = Some v
                  \<or> (k = kCFStreamSSLAllowsExpiredRoots \<and> dict' k = Some kCFBooleanTrue)))
     \<and> (domain streamError = kCFStreamErrorDomainSSL
          \<and> exception_key (errorCode streamError) = Some key \<and> dict key \<noteq> None
        \<longrightarrow> certificate_prompts s' = certificate_prompts s
            \<and> (if dict kCFStreamSSLLevel = None \<and> ssl_fallback_range (errorCode streamError)
                then result = EAGAIN
                     \<and> gSSLPropertiesDict s'
                         = Some (dict(kCFStreamSSLLevel \<mapsto> kCFStreamSocketSecurityLevelSSLv3))
                else result = EIO \<and> s' = s))
     \<and> (dict kCFStreamSSLLevel \<noteq> None \<and> exception_key (errorCode streamError) = None
        \<longrightarrow> result = EIO \<and> s' = s)
     \<and> ((ssl_fallback_range (errorCode streamError) \<and> exception_key (errorCode streamError) \<noteq> None)
          = (errorCode streamError = errSSLHostNameMismatch))"
  using HandleSSLErrors_monotone [OF assms] HandleSSLErrors_exception_set [OF assms]
    HandleSSLErrors_level_pinned [OF assms] fallback_and_exception
  by blast

text \<open>
  So, for every certificate fault other than a host name mismatch, an entry of its class
  in the bag makes the same fault return EIO with the state unchanged, whatever the rest
  of the bag holds and whatever the helper would answer.
\<close>

lemma HandleSSLErrors_same_class_fails:
  assumes "gSSLPropertiesDict s = Some dict"
    and "domain streamError = kCFStreamErrorDomainSSL"
    and "exception_key (errorCode streamError) = Some key" and "dict key \<noteq> None"
    and "errorCode streamError \<noteq> errSSLHostNameMismatch"
  shows "HandleSSLErrors dict_created helper streamError s = (EIO, s)"
proof -
  obtain result s' where run: "HandleSSLErrors dict_created helper streamError s = (result, s')"
    by (cases "HandleSSLErrors dict_created helper streamError s")
  have "\<not> ssl_fallback_range (errorCode streamError)"
    using fallback_and_exception [of "errorCode streamError"] assms(3,5) by simp
  then have "result = EIO \<and> s' = s"
    using HandleSSLErrors_exception_set [OF assms(1) run assms(2,3,4)] by simp
  then show ?thesis using run by simp
qed

text \<open>
  Claim C6. The claim asks that an SSL error whose fault class has its entry in the bag
  returns an io error, changes nothing and asks for no retry. The code does so for every
  certificate fault but one. \<^verbatim>\<open>errSSLHostNameMismatch\<close> has its arm in the switch,
  beside \<^verbatim>\<open>errSSLBadCert\<close> and \<^verbatim>\<open>errSSLXCertChainInvalid\<close> and under the same
  test of \<^verbatim>\<open>kCFStreamSSLValidatesCertificateChain\<close>, but its code, -9843, lies
  inside the last range of the fallback test (below or at
  \<^verbatim>\<open>errSSLPeerAccessDenied\<close>, -9832, and above \<^verbatim>\<open>errSSLLast\<close>, -9849), which
  comes first. With chain validation already disabled and the level not pinned, the two
  siblings return EIO and leave the state as it is; the host name mismatch pins the level
  to SSLv3 and returns EAGAIN. With the level pinned, the same error, whose code lies in
  the fallback ranges, runs the certificate helper and, on acceptance, returns EAGAIN.
\<close>

theorem HandleSSLErrors_hostname_mismatch_retries:
  "exception_key errSSLHostNameMismatch = Some kCFStreamSSLValidatesCertificateChain
   \<and> exception_key errSSLBadCert = Some kCFStreamSSLValidatesCertificateChain
   \<and> exception_key errSSLXCertChainInvalid = Some kCFStreamSSLValidatesCertificateChain
   \<and> ssl_fallback_range errSSLHostNameMismatch
   \<and> \<not> ssl_fallback_range errSSLBadCert
   \<and> \<not> ssl_fallback_range errSSLXCertChainInvalid
   \<and> HandleSSLErrors True (Some False)
        \<lparr>domain = kCFStreamErrorDomainSSL, errorCode = errSSLBadCert\<rparr>
        \<lparr>gSSLPropertiesDict = Some [kCFStreamSSLValidatesCertificateChain \<mapsto> kCFBooleanFalse],
         certificate_prompts = []\<rparr>
     = (EIO,
        \<lparr>gSSLPropertiesDict = Some [kCFStreamSSLValidatesCertificateChain \<mapsto> kCFBooleanFalse],
         certificate_prompts = []\<rparr>)
   \<and> HandleSSLErrors True (Some False)
        \<lparr>domain = kCFStreamErrorDomainSSL, errorCode = errSSLXCertChainInvalid\<rparr>
        \<lparr>gSSLPropertiesDict = Some [kCFStreamSSLValidatesCertificateChain \<mapsto> kCFBooleanFalse],
         certificate_prompts = []\<rparr>
     = (EIO,
        \<lparr>gSSLPropertiesDict = Some [kCFStreamSSLValidatesCertificateChain \<mapsto> kCFBooleanFalse],
         certificate_prompts = []\<rparr>)
   \<and> HandleSSLErrors True (Some False)
        \<lparr>domain = kCFStreamErrorDomainSSL, errorCode = errSSLHostNameMismatch\<rparr>
        \<lparr>gSSLPropertiesDict = Some [kCFStreamSSLValidatesCertificateChain \<mapsto> kCFBooleanFalse],
         certificate_prompts = []\<rparr>
     = (EAGAIN,
        \<lparr>gSSLPropertiesDict = Some [kCFStreamSSLValidatesCertificateChain \<mapsto> kCFBooleanFalse,
                                    kCFStreamSSLLevel \<mapsto> kCFStreamSocketSecurityLevelSSLv3],
         certificate_prompts = []\<rparr>)
   \<and> EAGAIN \<noteq> EIO
   \<and> HandleSSLErrors True (Some True)
        \<lparr>domain = kCFStreamErrorDomainSSL, errorCode = errSSLHostNameMismatch\<rparr>
        \<lparr>gSSLPropertiesDict = Some [kCFStreamSSLLevel \<mapsto> kCFStreamSocketSecurityLevelSSLv3],
         certificate_prompts = []\<rparr>
     = (EAGAIN,
        \<lparr>gSSLPropertiesDict = Some [kCFStreamSSLLevel \<mapsto> kCFStreamSocketSecurityLevelSSLv3,
                                    kCFStreamSSLValidatesCertificateChain \<mapsto> kCFBooleanFalse],
         certificate_prompts = [errSSLHostNameMismatch]\<rparr>)"
  by (simp add: HandleSSLErrors_def certificate_exception_def ConfirmCertificate_def
      exception_key_def ssl_fallback_range_def errSSL_defs errno_defs)

subsection \<open>The transaction engine: EPIPE\<close>

lemma find_ReadStreamRec_bound:
  "find_ReadStreamRec slots index result = Some k \<Longrightarrow>
     result = Some k \<or> (index \<le> k \<and> k < index + length slots)"
  by (induction slots index result rule: find_ReadStreamRec.induct)
    (auto split: if_splits)

lemma find_ReadStreamRec_None:
  "(find_ReadStreamRec slots index result = None) = (result = None \<and> (\<forall>slot \<in> set slots. inUse slot))"
  by (induction slots index result rule: find_ReadStreamRec.induct) auto

lemma ready_slot:
  assumes "ready g"
  obtains ptr where "find_ReadStreamRec (gReadStreams g) 0 None = Some ptr"
    and "ptr < length (gReadStreams g)"
proof -
  have "find_ReadStreamRec (gReadStreams g) 0 None \<noteq> None"
    using assms by (simp add: ready_def find_ReadStreamRec_None)
  then obtain ptr where f: "find_ReadStreamRec (gReadStreams g) 0 None = Some ptr"
    by blast
  then have "ptr < length (gReadStreams g)"
    using find_ReadStreamRec_bound by fastforce
  then show ?thesis using f that by blast
qed

lemma update_ReadStreamRec_fields [simp]:
  "connectionstate (update_ReadStreamRec index f g) = connectionstate g"
  "gSuppressAllUI (update_ReadStreamRec index f g) = gSuppressAllUI g"
  "authcache_applied (update_ReadStreamRec index f g) = authcache_applied g"
  "authcache_validated (update_ReadStreamRec index f g) = authcache_validated g"
  "enqueued_downloads (update_ReadStreamRec index f g) = enqueued_downloads g"
  "gSSLPropertiesDict (update_ReadStreamRec index f g) = gSSLPropertiesDict g"
  "certificate_prompts (update_ReadStreamRec index f g) = certificate_prompts g"
  "userAgentHeaderValue (update_ReadStreamRec index f g) = userAgentHeaderValue g"
  "X_Source_Id_HeaderValue (update_ReadStreamRec index f g) = X_Source_Id_HeaderValue g"
  "length (gReadStreams (update_ReadStreamRec index f g)) = length (gReadStreams g)"
  by (simp_all add: update_ReadStreamRec_def)

lemma update_ReadStreamRec_slot [simp]:
  "index < length (gReadStreams g) \<Longrightarrow>
     gReadStreams (update_ReadStreamRec index f g) ! index = f (gReadStreams g ! index)"
  by (simp add: update_ReadStreamRec_def)

lemma released_slot_is_free:
  assumes "index < length (gReadStreams g)"
  shows "\<exists>slot \<in> set (gReadStreams (release_ReadStreamRec index g)). \<not> inUse slot"
proof -
  let ?released = "(gReadStreams g ! index)\<lparr>inUse := False\<rparr>"
  have "?released \<in> set ((gReadStreams g)[index := ?released])"
    using assms by (rule set_update_memI)
  moreover have "\<not> inUse ?released" by simp
  ultimately have "\<exists>slot \<in> set ((gReadStreams g)[index := ?released]). \<not> inUse slot"
    by (rule rev_bexI)
  then show ?thesis
    by (simp add: release_ReadStreamRec_def update_ReadStreamRec_def)
qed

lemma release_ReadStreamRec_fields [simp]:
  "connectionstate (release_ReadStreamRec index g) = connectionstate g"
  "gSuppressAllUI (release_ReadStreamRec index g) = gSuppressAllUI g"
  "authcache_applied (release_ReadStreamRec index g) = authcache_applied g"
  "authcache_validated (release_ReadStreamRec index g) = authcache_validated g"
  "enqueued_downloads (release_ReadStreamRec index g) = enqueued_downloads g"
  "userAgentHeaderValue (release_ReadStreamRec index g) = userAgentHeaderValue g"
  "X_Source_Id_HeaderValue (release_ReadStreamRec index g) = X_Source_Id_HeaderValue g"
  "length (gReadStreams (release_ReadStreamRec index g)) = length (gReadStreams g)"
  by (simp_all add: release_ReadStreamRec_def)

lemma close_and_release_fields [simp]:
  "connectionstate (close_and_release index g) = connectionstate g"
  "gSuppressAllUI (close_and_release index g) = gSuppressAllUI g"
  "authcache_applied (close_and_release index g) = authcache_applied g"
  "authcache_validated (close_and_release index g) = authcache_validated g"
  "enqueued_downloads (close_and_release index g) = enqueued_downloads g"
  "userAgentHeaderValue (close_and_release index g) = userAgentHeaderValue g"
  "X_Source_Id_HeaderValue (close_and_release index g) = X_Source_Id_HeaderValue g"
  by (simp_all add: close_and_release_def)

lemma closed_slot_is_free:
  assumes "index < length (gReadStreams g)"
  shows "\<exists>slot \<in> set (gReadStreams (close_and_release index g)). \<not> inUse slot"
  unfolding close_and_release_def using assms by (intro released_slot_is_free) simp

lemma HandleSSLErrors_not_SSL:
  "domain streamError \<noteq> kCFStreamErrorDomainSSL \<Longrightarrow>
     HandleSSLErrors dc ua streamError g = (EIO, g)"
  by (simp add: HandleSSLErrors_def)

lemma transport_error_EPIPE:
  assumes "is_EPIPE streamError"
  shows "transport_error streamError retryTransaction g =
     (if retryTransaction then (EAGAIN, False, g)
      else (ENXIO, False, g\<lparr>connectionstate := WEBDAV_CONNECTION_DOWN\<rparr>))"
  using assms by (simp add: transport_error_def is_EPIPE_def)

lemma open_stream_opened:
  assumes "ready g" "calls_succeed sys auto_redirect" "open_error stream = None"
  obtains ptr where "ptr < length (gReadStreams g)"
    and "open_stream_for_transaction sys stream auto_redirect retryTransaction g =
       (0, Some ptr, retryTransaction,
        update_ReadStreamRec ptr (\<lambda>slot. slot\<lparr>readStreamRef := Some stream\<rparr>)
          (update_ReadStreamRec ptr (\<lambda>slot. slot\<lparr>inUse := True\<rparr>) g))"
proof -
  obtain ptr where f: "find_ReadStreamRec (gReadStreams g) 0 None = Some ptr"
    and b: "ptr < length (gReadStreams g)"
    using assms(1) by (rule ready_slot)
  have "open_stream_for_transaction sys stream auto_redirect retryTransaction g =
       (0, Some ptr, retryTransaction,
        update_ReadStreamRec ptr (\<lambda>slot. slot\<lparr>readStreamRef := Some stream\<rparr>)
          (update_ReadStreamRec ptr (\<lambda>slot. slot\<lparr>inUse := True\<rparr>) g))"
    using assms(2,3) f
    by (auto simp: open_stream_for_transaction_def calls_succeed_def get_ReadStreamRec_def)
  then show ?thesis using b that by blast
qed

lemma open_stream_EPIPE:
  assumes "ready g" "calls_succeed sys auto_redirect" "open_error stream = Some streamError"
    and "is_EPIPE streamError"
  obtains g' where "open_stream_for_transaction sys stream auto_redirect retryTransaction g =
       (if retryTransaction then EAGAIN else ENXIO, None, False, g')"
    and "after_EPIPE retryTransaction g g'"
proof -
  obtain ptr where f: "find_ReadStreamRec (gReadStreams g) 0 None = Some ptr"
    and b: "ptr < length (gReadStreams g)"
    using assms(1) by (rule ready_slot)
  have "domain streamError \<noteq> kCFStreamErrorDomainSSL"
    using assms(4) by (simp add: is_EPIPE_def)
  then have ssl: "HandleSSLErrors dc ua streamError h = (EIO, h)" for dc ua and h :: "'a globals_scheme"
    by (rule HandleSSLErrors_not_SSL)
  let ?g1 = "update_ReadStreamRec ptr (\<lambda>slot. slot\<lparr>inUse := True\<rparr>) g"
  let ?g' = "release_ReadStreamRec ptr
      (if retryTransaction then ?g1 else ?g1\<lparr>connectionstate := WEBDAV_CONNECTION_DOWN\<rparr>)"
  have run: "open_stream_for_transaction sys stream auto_redirect retryTransaction g =
       (if retryTransaction then EAGAIN else ENXIO, None, False, ?g')"
    using assms(2,3) f
    by (auto simp: open_stream_for_transaction_def calls_succeed_def get_ReadStreamRec_def
        transport_error_EPIPE [OF assms(4)] ssl errno_defs)
  have "\<exists>slot \<in> set (gReadStreams ?g'). \<not> inUse slot"
    using b by (intro released_slot_is_free) simp
  then have "after_EPIPE retryTransaction g ?g'"
    by (simp add: after_EPIPE_def)
  then show ?thesis using run that by blast
qed

lemma stream_get_transaction_EPIPE:
  assumes "ready g" "calls_succeed sys True"
    and "stream_get_error first_read_len stream = Some streamError" and "is_EPIPE streamError"
  shows "\<exists>g'. stream_get_transaction sys first_read_len stream retryTransaction node g =
       (if retryTransaction then EAGAIN else ENXIO, None, False, node, g')
     \<and> after_EPIPE retryTransaction g g'"
proof (cases "open_error stream")
  case (Some e)
  then have e: "open_error stream = Some streamError"
    using assms(3) by (simp add: stream_get_error_def)
  obtain g' where "open_stream_for_transaction sys stream True retryTransaction g =
       (if retryTransaction then EAGAIN else ENXIO, None, False, g')"
    and "after_EPIPE retryTransaction g g'"
    using open_stream_EPIPE [OF assms(1,2) e assms(4)] by blast
  then show ?thesis using assms(1)
    by (auto simp: stream_get_transaction_def ready_def errno_defs)
next
  case None
  obtain ptr where b: "ptr < length (gReadStreams g)"
    and o: "open_stream_for_transaction sys stream True retryTransaction g =
       (0, Some ptr, retryTransaction,
        update_ReadStreamRec ptr (\<lambda>slot. slot\<lparr>readStreamRef := Some stream\<rparr>)
          (update_ReadStreamRec ptr (\<lambda>slot. slot\<lparr>inUse := True\<rparr>) g))"
    using open_stream_opened [OF assms(1,2) None] by blast
  obtain events where r: "read_first first_read_len (pending stream) [] = FirstReadFailed streamError events"
    using assms(3) None by (auto simp: stream_get_error_def split: first_read.splits)
  let ?g2 = "update_ReadStreamRec ptr (\<lambda>slot. slot\<lparr>readStreamRef := Some stream\<rparr>)
          (update_ReadStreamRec ptr (\<lambda>slot. slot\<lparr>inUse := True\<rparr>) g)"
  let ?g' = "close_and_release ptr
      (if retryTransaction then ?g2 else ?g2\<lparr>connectionstate := WEBDAV_CONNECTION_DOWN\<rparr>)"
  have run: "stream_get_transaction sys first_read_len stream retryTransaction node g =
       (if retryTransaction then EAGAIN else ENXIO, None, False, node, ?g')"
    using assms(1,2) o r
    by (auto simp: stream_get_transaction_def ready_def calls_succeed_def
        transport_error_EPIPE [OF assms(4)] simp del: read_first.simps)
  have "\<exists>slot \<in> set (gReadStreams ?g'). \<not> inUse slot"
    using b by (intro closed_slot_is_free) simp
  then have "after_EPIPE retryTransaction g ?g'"
    by (simp add: after_EPIPE_def)
  then show ?thesis using run by blast
qed

lemma stream_transaction_EPIPE:
  assumes "ready g" "calls_succeed sys auto_redirect"
    and "stream_body_error sys stream = Some streamError" and "is_EPIPE streamError"
  shows "\<exists>g'. stream_transaction sys stream auto_redirect retryTransaction g =
       (if retryTransaction then EAGAIN else ENXIO, None, None, False, g')
     \<and> after_EPIPE retryTransaction g g'"
proof (cases "open_error stream")
  case (Some e)
  then have e: "open_error stream = Some streamError"
    using assms(3) by (simp add: stream_body_error_def)
  obtain g' where "open_stream_for_transaction sys stream auto_redirect retryTransaction g =
       (if retryTransaction then EAGAIN else ENXIO, None, False, g')"
    and "after_EPIPE retryTransaction g g'"
    using open_stream_EPIPE [OF assms(1,2) e assms(4)] by blast
  then show ?thesis using assms(1)
    by (auto simp: stream_transaction_def ready_def errno_defs)
next
  case None
  obtain ptr where b: "ptr < length (gReadStreams g)"
    and o: "open_stream_for_transaction sys stream auto_redirect retryTransaction g =
       (0, Some ptr, retryTransaction,
        update_ReadStreamRec ptr (\<lambda>slot. slot\<lparr>readStreamRef := Some stream\<rparr>)
          (update_ReadStreamRec ptr (\<lambda>slot. slot\<lparr>inUse := True\<rparr>) g))"
    using open_stream_opened [OF assms(1,2) None] by blast
  obtain events where r: "read_body sys (pending stream) BODY_BUFFER_SIZE [] = BodyReadFailed streamError events"
    using assms(3) None by (auto simp: stream_body_error_def split: body_read.splits)
  have "domain streamError \<noteq> kCFStreamErrorDomainSSL"
    using assms(4) by (simp add: is_EPIPE_def)
  then have ssl: "HandleSSLErrors dc ua streamError h = (EIO, h)" for dc ua and h :: "'a globals_scheme"
    by (rule HandleSSLErrors_not_SSL)
  let ?g2 = "update_ReadStreamRec ptr (\<lambda>slot. slot\<lparr>readStreamRef := Some stream\<rparr>)
          (update_ReadStreamRec ptr (\<lambda>slot. slot\<lparr>inUse := True\<rparr>) g)"
  let ?g' = "close_and_release ptr
      (if retryTransaction then ?g2 else ?g2\<lparr>connectionstate := WEBDAV_CONNECTION_DOWN\<rparr>)"
  have run: "stream_transaction sys stream auto_redirect retryTransaction g =
       (if retryTransaction then EAGAIN else ENXIO, None, None, False, ?g')"
    using assms(1,2) o r
    by (auto simp: stream_transaction_def ready_def calls_succeed_def errno_defs ssl
        transport_error_EPIPE [OF assms(4)] simp del: read_body.simps)
  have "\<exists>slot \<in> set (gReadStreams ?g'). \<not> inUse slot"
    using b by (intro closed_slot_is_free) simp
  then have "after_EPIPE retryTransaction g ?g'"
    by (simp add: after_EPIPE_def)
  then show ?thesis using run by blast
qed

lemma stream_transaction_from_file_EPIPE:
  assumes "ready g" "calls_succeed sys False" "lseek_done sys SEEK_END" "file_stream_created sys"
    and "stream_from_file_error stream = Some streamError" and "is_EPIPE streamError"
  shows "\<exists>fd' g'. stream_transaction_from_file sys stream fd retryTransaction g =
       (if retryTransaction then EAGAIN else ENXIO, None, False, fd', g')
     \<and> after_EPIPE retryTransaction g g'"
proof (cases "open_error stream")
  case (Some e)
  then have e: "open_error stream = Some streamError"
    using assms(5) by (simp add: stream_from_file_error_def)
  obtain g' where "open_stream_for_transaction sys stream False retryTransaction g =
       (if retryTransaction then EAGAIN else ENXIO, None, False, g')"
    and "after_EPIPE retryTransaction g g'"
    using open_stream_EPIPE [OF assms(1,2) e assms(6)] by blast
  then show ?thesis using assms(1,3,4)
    by (auto simp: stream_transaction_from_file_def ready_def errno_defs lseek_def Let_def
        split: prod.splits)
next
  case None
  obtain ptr where b: "ptr < length (gReadStreams g)"
    and o: "open_stream_for_transaction sys stream False retryTransaction g =
       (0, Some ptr, retryTransaction,
        update_ReadStreamRec ptr (\<lambda>slot. slot\<lparr>readStreamRef := Some stream\<rparr>)
          (update_ReadStreamRec ptr (\<lambda>slot. slot\<lparr>inUse := True\<rparr>) g))"
    using open_stream_opened [OF assms(1,2) None] by blast
  obtain events where r: "eat_response (pending stream) = (Some streamError, events)"
    using assms(5) None by (cases "eat_response (pending stream)") (auto simp: stream_from_file_error_def)
  let ?g2 = "update_ReadStreamRec ptr (\<lambda>slot. slot\<lparr>readStreamRef := Some stream\<rparr>)
          (update_ReadStreamRec ptr (\<lambda>slot. slot\<lparr>inUse := True\<rparr>) g)"
  let ?g' = "close_and_release ptr
      (if retryTransaction then ?g2 else ?g2\<lparr>connectionstate := WEBDAV_CONNECTION_DOWN\<rparr>)"
  have run: "\<exists>fd'. stream_transaction_from_file sys stream fd retryTransaction g =
       (if retryTransaction then EAGAIN else ENXIO, None, False, fd', ?g')"
    using assms(1,2,3,4) o r
    by (auto simp: stream_transaction_from_file_def ready_def calls_succeed_def lseek_def Let_def
        transport_error_EPIPE [OF assms(6)] simp del: eat_response.simps split: prod.splits)
  have "\<exists>slot \<in> set (gReadStreams ?g'). \<not> inUse slot"
    using b by (intro closed_slot_is_free) simp
  then have "after_EPIPE retryTransaction g ?g'"
    by (simp add: after_EPIPE_def)
  then show ?thesis using run by blast
qed

lemma ready_after_EPIPE:
  assumes "ready g" "after_EPIPE True g g'"
  shows "ready g'"
  using assms by (simp add: ready_def after_EPIPE_def connection_down_def)

lemma ready_authcache_applied [simp]:
  "ready (g\<lparr>authcache_applied := x\<rparr>) = ready g"
  by (simp add: ready_def connection_down_def)

lemma stream_transaction_succeeds:
  assumes "ready g" "calls_succeed sys auto_redirect" "open_error stream = None"
    and "read_body sys (pending stream) BODY_BUFFER_SIZE [] = BodyRead buffer events"
    and "responseHeader stream = Some responseMessage"
  shows "\<exists>g'. stream_transaction sys stream auto_redirect retryTransaction g =
       (0, Some buffer, Some responseMessage, retryTransaction, g')
     \<and> connectionstate g' = WEBDAV_CONNECTION_UP
     \<and> authcache_applied g' = authcache_applied g
     \<and> authcache_validated g' = authcache_validated g"
proof -
  obtain ptr where b: "ptr < length (gReadStreams g)"
    and o: "open_stream_for_transaction sys stream auto_redirect retryTransaction g =
       (0, Some ptr, retryTransaction,
        update_ReadStreamRec ptr (\<lambda>slot. slot\<lparr>readStreamRef := Some stream\<rparr>)
          (update_ReadStreamRec ptr (\<lambda>slot. slot\<lparr>inUse := True\<rparr>) g))"
    using open_stream_opened [OF assms(1,2,3)] by blast
  show ?thesis
    using assms o
    by (auto simp: stream_transaction_def ready_def calls_succeed_def finish_transaction_def
        simp del: read_body.simps)
qed

lemma send_transaction_EPIPE_twice:
  assumes "ready g"
    and "message_created a1" "authcache_result a1 = 0"
    and "calls_succeed (attempt_outcomes a1) auto_redirect"
    and "stream_body_error (attempt_outcomes a1) (attempt_stream a1) = Some e1" "is_EPIPE e1"
    and "message_created a2" "authcache_result a2 = 0"
    and "calls_succeed (attempt_outcomes a2) auto_redirect"
    and "stream_body_error (attempt_outcomes a2) (attempt_stream a2) = Some e2" "is_EPIPE e2"
  shows "\<exists>g'. send_transaction (a1 # a2 # rest) uid url verb bodyData headers auto_redirect g
       = Some (ENXIO, None, None, g')
     \<and> connectionstate g' = WEBDAV_CONNECTION_DOWN
     \<and> length (authcache_applied g') = length (authcache_applied g) + 2
     \<and> authcache_validated g' = authcache_validated g"
proof -
  define message where "message =
            \<lparr>requestMethod = verb, requestURL = url,
             requestHeaders =
               (''User-Agent'', userAgentHeaderValue g)
               # (case X_Source_Id_HeaderValue g of
                    None \<Rightarrow> []
                  | Some source_id \<Rightarrow> [(''X-Source-Id'', source_id)])
               @ headers,
             requestBody = bodyData\<rparr>"
  let ?g1 = "g\<lparr>authcache_applied := authcache_applied g @ [(uid, message)]\<rparr>"
  have r1: "ready ?g1" using assms(1) by simp
  obtain g2 where t1: "stream_transaction (attempt_outcomes a1) (attempt_stream a1) auto_redirect True ?g1
      = (EAGAIN, None, None, False, g2)" and a1: "after_EPIPE True ?g1 g2"
    using stream_transaction_EPIPE [OF r1 assms(4,5,6), of True] by auto
  let ?g3 = "g2\<lparr>authcache_applied := authcache_applied g2 @ [(uid, message)]\<rparr>"
  have r3: "ready ?g3" using ready_after_EPIPE [OF r1 a1] by simp
  obtain g4 where t2: "stream_transaction (attempt_outcomes a2) (attempt_stream a2) auto_redirect False ?g3
      = (ENXIO, None, None, False, g4)" and a2: "after_EPIPE False ?g3 g4"
    using stream_transaction_EPIPE [OF r3 assms(9,10,11), of False] by auto
  have loop: "transaction_loop (a1 # a2 # rest) uid message auto_redirect (0, None, None, True) g
      = Some (ENXIO, 0, None, None, g4)"
    using assms(2,3,7,8) t1 t2 by (simp add: errno_defs)
  have "send_transaction (a1 # a2 # rest) uid url verb bodyData headers auto_redirect g
       = Some (ENXIO, None, None, g4)"
    unfolding send_transaction_def message_def [symmetric] Let_def loop
    by (simp add: errno_defs)
  moreover have "connectionstate g4 = WEBDAV_CONNECTION_DOWN"
    "length (authcache_applied g4) = length (authcache_applied g) + 2"
    "authcache_validated g4 = authcache_validated g"
    using a1 a2 by (simp_all add: after_EPIPE_def)
  ultimately show ?thesis by blast
qed

lemma send_transaction_EPIPE_once:
  assumes "ready g"
    and "message_created a1" "authcache_result a1 = 0"
    and "calls_succeed (attempt_outcomes a1) auto_redirect"
    and "stream_body_error (attempt_outcomes a1) (attempt_stream a1) = Some e1" "is_EPIPE e1"
    and "message_created a2" "authcache_result a2 = 0"
    and "calls_succeed (attempt_outcomes a2) auto_redirect"
    and "open_error (attempt_stream a2) = None"
    and "read_body (attempt_outcomes a2) (pending (attempt_stream a2)) BODY_BUFFER_SIZE []
           = BodyRead buffer events"
    and "responseHeader (attempt_stream a2) = Some responseMessage"
    and "200 \<le> responseStatusCode responseMessage" "responseStatusCode responseMessage \<le> 299"
  shows "\<exists>g'. send_transaction (a1 # a2 # rest) uid url verb bodyData headers auto_redirect g
       = Some (0, Some buffer, Some responseMessage, g')
     \<and> connectionstate g' = WEBDAV_CONNECTION_UP
     \<and> length (authcache_applied g') = length (authcache_applied g) + 2
     \<and> length (authcache_validated g') = length (authcache_validated g) + 1"
proof -
  define message where "message =
            \<lparr>requestMethod = verb, requestURL = url,
             requestHeaders =
               (''User-Agent'', userAgentHeaderValue g)
               # (case X_Source_Id_HeaderValue g of
                    None \<Rightarrow> []
                  | Some source_id \<Rightarrow> [(''X-Source-Id'', source_id)])
               @ headers,
             requestBody = bodyData\<rparr>"
  let ?g1 = "g\<lparr>authcache_applied := authcache_applied g @ [(uid, message)]\<rparr>"
  have r1: "ready ?g1" using assms(1) by simp
  obtain g2 where t1: "stream_transaction (attempt_outcomes a1) (attempt_stream a1) auto_redirect True ?g1
      = (EAGAIN, None, None, False, g2)" and a1: "after_EPIPE True ?g1 g2"
    using stream_transaction_EPIPE [OF r1 assms(4,5,6), of True] by auto
  let ?g3 = "g2\<lparr>authcache_applied := authcache_applied g2 @ [(uid, message)]\<rparr>"
  have r3: "ready ?g3" using ready_after_EPIPE [OF r1 a1] by simp
  obtain g4 where t2: "stream_transaction (attempt_outcomes a2) (attempt_stream a2) auto_redirect False ?g3
      = (0, Some buffer, Some responseMessage, False, g4)"
    and up: "connectionstate g4 = WEBDAV_CONNECTION_UP"
    and ap: "authcache_applied g4 = authcache_applied ?g3"
    and av: "authcache_validated g4 = authcache_validated ?g3"
    using stream_transaction_succeeds [OF r3 assms(9,10,11,12), of False] by auto
  define status :: "32 word" where "status = of_nat (responseStatusCode responseMessage)"
  have u: "unat status = responseStatusCode responseMessage"
    using assms(14) by (simp add: status_def unat_of_nat)
  then have ok: "translate_status_to_error status = 0"
    using assms(13,14) status_2xx by simp
  have not_auth: "status \<noteq> 401" "status \<noteq> 407"
    using u assms(14) by auto
  have loop: "transaction_loop (a1 # a2 # rest) uid message auto_redirect (0, None, None, True) g
      = Some (0, status, Some buffer, Some responseMessage, g4)"
    using assms(2,3,7,8) t1 t2 not_auth by (simp add: errno_defs status_def)
  have "send_transaction (a1 # a2 # rest) uid url verb bodyData headers auto_redirect g
       = Some (0, Some buffer, Some responseMessage,
               g4\<lparr>authcache_validated := authcache_validated g4 @ [(uid, message)]\<rparr>)"
    unfolding send_transaction_def message_def [symmetric] Let_def loop
    by (simp add: ok)
  moreover have "length (authcache_applied g4) = length (authcache_applied g) + 2"
    "length (authcache_validated g4) = length (authcache_validated g)"
    using a1 ap av by (simp_all add: after_EPIPE_def)
  ultimately show ?thesis using up by auto
qed

text \<open>
  Claim C2. In each of the three transaction variants, when the stream reports a POSIX
  EPIPE (at the open or at a read) and the retry flag is true, the flag is cleared and
  the result is EAGAIN, the connection state staying as it was; when the flag is false,
  the connection state is set to down and the result is the errno ENXIO, the io error of
  every failed transport. In \<^verbatim>\<open>send_transaction\<close> two EPIPEs in a row therefore end
  the transaction with ENXIO after exactly two attempts (a third is not made), and an
  EPIPE followed by a successful attempt ends it with success after exactly two.
\<close>

theorem EPIPE_retried_once:
  "(ready g \<and> calls_succeed sys auto_redirect
      \<and> stream_body_error sys stream = Some streamError \<and> is_EPIPE streamError
    \<longrightarrow> (\<exists>g'. stream_transaction sys stream auto_redirect retryTransaction g
                = (if retryTransaction then EAGAIN else ENXIO, None, None, False, g')
              \<and> connectionstate g'
                = (if retryTransaction then connectionstate g else WEBDAV_CONNECTION_DOWN)))
   \<and> (ready g \<and> calls_succeed sys True
      \<and> stream_get_error first_read_len stream = Some streamError \<and> is_EPIPE streamError
    \<longrightarrow> (\<exists>g'. stream_get_transaction sys first_read_len stream retryTransaction node g
                = (if retryTransaction then EAGAIN else ENXIO, None, False, node, g')
              \<and> connectionstate g'
                = (if retryTransaction then connectionstate g else WEBDAV_CONNECTION_DOWN)))
   \<and> (ready g \<and> calls_succeed sys False \<and> lseek_done sys SEEK_END \<and> file_stream_created sys
      \<and> stream_from_file_error stream = Some streamError \<and> is_EPIPE streamError
    \<longrightarrow> (\<exists>fd' g'. stream_transaction_from_file sys stream fd retryTransaction g
                = (if retryTransaction then EAGAIN else ENXIO, None, False, fd', g')
              \<and> connectionstate g'
                = (if retryTransaction then connectionstate g else WEBDAV_CONNECTION_DOWN)))
   \<and> (ready g
      \<and> message_created a1 \<and> authcache_result a1 = 0
      \<and> calls_succeed (attempt_outcomes a1) auto_redirect
      \<and> stream_body_error (attempt_outcomes a1) (attempt_stream a1) = Some e1 \<and> is_EPIPE e1
      \<and> message_created a2 \<and> authcache_result a2 = 0
      \<and> calls_succeed (attempt_outcomes a2) auto_redirect
      \<and> stream_body_error (attempt_outcomes a2) (attempt_stream a2) = Some e2 \<and> is_EPIPE e2
    \<longrightarrow> (\<exists>g'. send_transaction (a1 # a2 # rest) uid url verb bodyData headers auto_redirect g
                = Some (ENXIO, None, None, g')
              \<and> connectionstate g' = WEBDAV_CONNECTION_DOWN
              \<and> length (authcache_applied g') = length (authcache_applied g) + 2))
   \<and> (ready g
      \<and> message_created a1 \<and> authcache_result a1 = 0
      \<and> calls_succeed (attempt_outcomes a1) auto_redirect
      \<and> stream_body_error (attempt_outcomes a1) (attempt_stream a1) = Some e1 \<and> is_EPIPE e1
      \<and> message_created a2 \<and> authcache_result a2 = 0
      \<and> calls_succeed (attempt_outcomes a2) auto_redirect
      \<and> open_error (attempt_stream a2) = None
      \<and> read_body (attempt_outcomes a2) (pending (attempt_stream a2)) BODY_BUFFER_SIZE []
           = BodyRead buffer events
      \<and> responseHeader (attempt_stream a2) = Some responseMessage
      \<and> 200 \<le> responseStatusCode responseMessage \<and> responseStatusCode responseMessage \<le> 299
    \<longrightarrow> (\<exists>g'. send_transaction (a1 # a2 # rest) uid url verb bodyData headers auto_redirect g
                = Some (0, Some buffer, Some responseMessage, g')
              \<and> connectionstate g' = WEBDAV_CONNECTION_UP
              \<and> length (authcache_applied g') = length (authcache_applied g) + 2))"
proof (intro conjI impI)
  assume "ready g \<and> calls_succeed sys auto_redirect
      \<and> stream_body_error sys stream = Some streamError \<and> is_EPIPE streamError"
  then show "\<exists>g'. stream_transaction sys stream auto_redirect retryTransaction g
                = (if retryTransaction then EAGAIN else ENXIO, None, None, False, g')
              \<and> connectionstate g'
                = (if retryTransaction then connectionstate g else WEBDAV_CONNECTION_DOWN)"
    using stream_transaction_EPIPE [of g sys auto_redirect stream streamError retryTransaction]
    by (auto simp: after_EPIPE_def)
next
  assume "ready g \<and> calls_succeed sys True
      \<and> stream_get_error first_read_len stream = Some streamError \<and> is_EPIPE streamError"
  then show "\<exists>g'. stream_get_transaction sys first_read_len stream retryTransaction node g
                = (if retryTransaction then EAGAIN else ENXIO, None, False, node, g')
              \<and> connectionstate g'
                = (if retryTransaction then connectionstate g else WEBDAV_CONNECTION_DOWN)"
    using stream_get_transaction_EPIPE
      [of g sys first_read_len stream streamError retryTransaction node]
    by (auto simp: after_EPIPE_def)
next
  assume "ready g \<and> calls_succeed sys False \<and> lseek_done sys SEEK_END \<and> file_stream_created sys
      \<and> stream_from_file_error stream = Some streamError \<and> is_EPIPE streamError"
  then show "\<exists>fd' g'. stream_transaction_from_file sys stream fd retryTransaction g
                = (if retryTransaction then EAGAIN else ENXIO, None, False, fd', g')
              \<and> connectionstate g'
                = (if retryTransaction then connectionstate g else WEBDAV_CONNECTION_DOWN)"
    using stream_transaction_from_file_EPIPE [of g sys stream streamError fd retryTransaction]
    by (auto simp: after_EPIPE_def)
next
  assume "ready g
      \<and> message_created a1 \<and> authcache_result a1 = 0
      \<and> calls_succeed (attempt_outcomes a1) auto_redirect
      \<and> stream_body_error (attempt_outcomes a1) (attempt_stream a1) = Some e1 \<and> is_EPIPE e1
      \<and> message_created a2 \<and> authcache_result a2 = 0
      \<and> calls_succeed (attempt_outcomes a2) auto_redirect
      \<and> stream_body_error (attempt_outcomes a2) (attempt_stream a2) = Some e2 \<and> is_EPIPE e2"
  then show "\<exists>g'. send_transaction (a1 # a2 # rest) uid url verb bodyData headers auto_redirect g
                = Some (ENXIO, None, None, g')
              \<and> connectionstate g' = WEBDAV_CONNECTION_DOWN
              \<and> length (authcache_applied g') = length (authcache_applied g) + 2"
    using send_transaction_EPIPE_twice
      [of g a1 auto_redirect e1 a2 e2 rest uid url verb bodyData headers]
    by blast
next
  assume "ready g
      \<and> message_created a1 \<and> authcache_result a1 = 0
      \<and> calls_succeed (attempt_outcomes a1) auto_redirect
      \<and> stream_body_error (attempt_outcomes a1) (attempt_stream a1) = Some e1 \<and> is_EPIPE e1
      \<and> message_created a2 \<and> authcache_result a2 = 0
      \<and> calls_succeed (attempt_outcomes a2) auto_redirect
      \<and> open_error (attempt_stream a2) = None
      \<and> read_body (attempt_outcomes a2) (pending (attempt_stream a2)) BODY_BUFFER_SIZE []
           = BodyRead buffer events
      \<and> responseHeader (attempt_stream a2) = Some responseMessage
      \<and> 200 \<le> responseStatusCode responseMessage \<and> responseStatusCode responseMessage \<le> 299"
  then show "\<exists>g'. send_transaction (a1 # a2 # rest) uid url verb bodyData headers auto_redirect g
                = Some (0, Some buffer, Some responseMessage, g')
              \<and> connectionstate g' = WEBDAV_CONNECTION_UP
              \<and> length (authcache_applied g') = length (authcache_applied g) + 2"
    using send_transaction_EPIPE_once
      [of g a1 auto_redirect e1 a2 buffer events responseMessage rest uid url verb bodyData headers]
    by blast
qed

lemma fixture_facts:
  "ready idle_state" "calls_succeed every_call_succeeds auto_redirect"
  "is_EPIPE broken_pipe" "lseek_done every_call_succeeds SEEK_END"
  "file_stream_created every_call_succeeds"
  by (simp_all add: ready_def connection_down_def idle_state_def calls_succeed_def
      every_call_succeeds_def is_EPIPE_def broken_pipe_def)

lemma pipe_breaks_errors:
  "stream_body_error every_call_succeeds pipe_breaks = Some broken_pipe"
  "stream_get_error 4096 pipe_breaks = Some broken_pipe"
  "stream_from_file_error pipe_breaks = Some broken_pipe"
  by (simp_all add: stream_body_error_def stream_get_error_def stream_from_file_error_def
      pipe_breaks_def BODY_BUFFER_SIZE_def)

text \<open>The theorem at a stream that delivers three bytes and then breaks.\<close>

theorem EPIPE_retried_once_witness:
  "(\<exists>g'. stream_transaction every_call_succeeds pipe_breaks True True idle_state
            = (EAGAIN, None, None, False, g')
          \<and> connectionstate g' = WEBDAV_CONNECTION_UP)
   \<and> (\<exists>g'. stream_transaction every_call_succeeds pipe_breaks True False idle_state
            = (ENXIO, None, None, False, g')
          \<and> connectionstate g' = WEBDAV_CONNECTION_DOWN)
   \<and> (\<exists>g'. stream_get_transaction every_call_succeeds 4096 pipe_breaks True fresh_node idle_state
            = (EAGAIN, None, False, fresh_node, g')
          \<and> connectionstate g' = WEBDAV_CONNECTION_UP)
   \<and> (\<exists>fd' g'. stream_transaction_from_file every_call_succeeds pipe_breaks
              (file_fd fresh_node) False idle_state
            = (ENXIO, None, False, fd', g')
          \<and> connectionstate g' = WEBDAV_CONNECTION_DOWN)
   \<and> (\<exists>g'. send_transaction [pipe_breaks_attempt, pipe_breaks_attempt, pipe_breaks_attempt]
              501 (CFURL ''http://h/a/'' None) ''PROPFIND'' None [] True idle_state
            = Some (ENXIO, None, None, g')
          \<and> connectionstate g' = WEBDAV_CONNECTION_DOWN
          \<and> length (authcache_applied g') = 2)"
proof -
  have up: "connectionstate idle_state = WEBDAV_CONNECTION_UP"
    and none: "authcache_applied idle_state = []"
    by (simp_all add: idle_state_def)
  have attempt: "message_created pipe_breaks_attempt" "authcache_result pipe_breaks_attempt = 0"
    "attempt_outcomes pipe_breaks_attempt = every_call_succeeds"
    "attempt_stream pipe_breaks_attempt = pipe_breaks"
    by (simp_all add: pipe_breaks_attempt_def)
  note at = EPIPE_retried_once [where g = idle_state and sys = every_call_succeeds
      and stream = pipe_breaks and streamError = broken_pipe and first_read_len = 4096
      and node = fresh_node and fd = "file_fd fresh_node"
      and ?a1.0 = pipe_breaks_attempt and ?a2.0 = pipe_breaks_attempt
      and ?e1.0 = broken_pipe and ?e2.0 = broken_pipe and rest = "[pipe_breaks_attempt]"
      and uid = 501 and url = "CFURL ''http://h/a/'' None" and verb = "''PROPFIND''"
      and bodyData = None and headers = "[]" and buffer = "[]" and events = "[]"
      and responseMessage = "\<lparr>responseStatusCode = 200, headerFields = []\<rparr>"]
  have first: "\<exists>g'. stream_transaction every_call_succeeds pipe_breaks True True idle_state
            = (EAGAIN, None, None, False, g')
          \<and> connectionstate g' = WEBDAV_CONNECTION_UP"
    using at [where auto_redirect = True and retryTransaction = True, THEN conjunct1]
      fixture_facts pipe_breaks_errors up by simp
  have second: "\<exists>g'. stream_transaction every_call_succeeds pipe_breaks True False idle_state
            = (ENXIO, None, None, False, g')
          \<and> connectionstate g' = WEBDAV_CONNECTION_DOWN"
    using at [where auto_redirect = True and retryTransaction = False, THEN conjunct1]
      fixture_facts pipe_breaks_errors by simp
  have get: "\<exists>g'. stream_get_transaction every_call_succeeds 4096 pipe_breaks True fresh_node idle_state
            = (EAGAIN, None, False, fresh_node, g')
          \<and> connectionstate g' = WEBDAV_CONNECTION_UP"
    using at [where auto_redirect = True and retryTransaction = True,
        THEN conjunct2, THEN conjunct1]
      fixture_facts pipe_breaks_errors up by simp
  have put: "\<exists>fd' g'. stream_transaction_from_file every_call_succeeds pipe_breaks
              (file_fd fresh_node) False idle_state
            = (ENXIO, None, False, fd', g')
          \<and> connectionstate g' = WEBDAV_CONNECTION_DOWN"
    using at [where auto_redirect = True and retryTransaction = False,
        THEN conjunct2, THEN conjunct2, THEN conjunct1]
      fixture_facts pipe_breaks_errors by simp
  have twice: "\<exists>g'. send_transaction [pipe_breaks_attempt, pipe_breaks_attempt, pipe_breaks_attempt]
              501 (CFURL ''http://h/a/'' None) ''PROPFIND'' None [] True idle_state
            = Some (ENXIO, None, None, g')
          \<and> connectionstate g' = WEBDAV_CONNECTION_DOWN
          \<and> length (authcache_applied g') = 2"
    using at [where auto_redirect = True and retryTransaction = True,
        THEN conjunct2, THEN conjunct2, THEN conjunct2, THEN conjunct1]
      fixture_facts pipe_breaks_errors attempt none by (simp add: numeral_2_eq_2)
  show ?thesis using first second get put twice by blast
qed

subsection \<open>The transaction engine: the cache file and the hand-over\<close>

lemma cache_first_read_200:
  assumes "fchflags_done sys 0" "ftruncate_done sys" "lseek_done sys SEEK_SET"
    and "bytes_written sys (length buffer) = int (length buffer)"
  shows "cache_first_read sys 200 buffer background_load fd =
     (True, background_load,
      \<lparr>file_contents = buffer, file_offset = length buffer, file_flags = 0\<rparr>)"
  using assms
  by (simp add: cache_first_read_def fchflags_def ftruncate_def lseek_def sys_write_def)

lemma cache_first_read_206:
  assumes "fchflags_done sys 0" "lseek_done sys SEEK_END"
    and "0 \<le> bytes_written sys (length buffer)"
  shows "cache_first_read sys 206 buffer background_load fd =
     (True, background_load,
      \<lparr>file_contents = file_contents fd @ take (nat (bytes_written sys (length buffer))) buffer,
       file_offset = length (file_contents fd)
         + length (take (nat (bytes_written sys (length buffer))) buffer),
       file_flags = 0\<rparr>)"
  using assms
  by (simp add: cache_first_read_def fchflags_def lseek_def sys_write_def Let_def)

lemma cache_first_read_other:
  assumes "status \<noteq> 200" "status \<noteq> 206"
  shows "cache_first_read sys status buffer background_load fd = (True, False, fd)"
  using assms by (simp add: cache_first_read_def)

lemma read_first_background:
  "read_first first_read_len events buffer0 = FirstRead buffer events' True
     \<Longrightarrow> length buffer0 \<le> first_read_len
     \<Longrightarrow> length buffer = first_read_len \<and> \<not> at_end events'"
proof (induction first_read_len events buffer0 rule: read_first.induct)
  case (1 first_read_len events buffer0)
  obtain result rest where rd: "CFReadStreamRead events (first_read_len - length buffer0) = (result, rest)"
    by (cases "CFReadStreamRead events (first_read_len - length buffer0)")
  show ?case
  proof (cases result)
    case (ReadFailed streamError)
    then show ?thesis using "1.prems"(1) rd by (subst (asm) read_first.simps) simp
  next
    case (Read bytes)
    have len: "length bytes \<le> first_read_len - length buffer0"
    proof (cases events)
      case Nil
      then show ?thesis using rd Read by auto
    next
      case (Cons event more)
      then show ?thesis using rd Read by (cases event) auto
    qed
    show ?thesis
    proof (cases "bytes = []")
      case True
      then show ?thesis using "1.prems"(1) rd Read by (subst (asm) read_first.simps) simp
    next
      case False
      show ?thesis
      proof (cases "first_read_len \<le> length (buffer0 @ bytes)")
        case True
        then have "FirstRead (buffer0 @ bytes) rest (\<not> at_end rest) = FirstRead buffer events' True"
          using "1.prems"(1) rd Read False by (subst (asm) read_first.simps) auto
        then have "buffer0 @ bytes = buffer" "rest = events'" "\<not> at_end rest" by auto
        moreover have "length (buffer0 @ bytes) = first_read_len"
          using True len "1.prems"(2) by simp
        ultimately show ?thesis by blast
      next
        case notfull: False
        then have run: "read_first first_read_len rest (buffer0 @ bytes) = FirstRead buffer events' True"
          using "1.prems"(1) rd Read False by (subst (asm) read_first.simps) simp
        have room: "length (buffer0 @ bytes) \<le> first_read_len" using notfull by simp
        show ?thesis
          by (rule "1.IH" [OF rd [symmetric] Read False notfull run room])
      qed
    qed
  qed
qed


lemma released_slot:
  "index < length (gReadStreams g) \<Longrightarrow>
     \<not> inUse (gReadStreams (release_ReadStreamRec index g) ! index)"
  by (simp add: release_ReadStreamRec_def)


text \<open>
  Claim C3, with the conditions the code adds. Let the first read end with
  \<^verbatim>\<open>first_read_len\<close> bytes in the buffer and the stream not at its end. If the
  status is 200 or 206 and the calls on the cache file and the request queue succeed,
  the function returns 0 with the response, the download status is in progress, the
  cache file has the flag \<^verbatim>\<open>UF_NODUMP\<close> and holds the first bytes, the request queue
  got exactly one more call, with the node and the slot leased, and the slot is still in
  use and holds the stream with what is left to read. On every other status no hand-over
  takes place: the download status is finished, the queue is as before and the slot is
  free again.
\<close>

theorem download_handed_off:
  assumes "ready g" "calls_succeed sys True" "open_error stream = None"
    and "read_first first_read_len (pending stream) [] = FirstRead buffer events True"
    and "responseHeader stream = Some responseMessage"
  shows "\<exists>ptr. find_ReadStreamRec (gReadStreams g) 0 None = Some ptr
      \<and> ptr < length (gReadStreams g)
      \<and> length buffer = first_read_len \<and> \<not> at_end events
      \<and> ((responseStatusCode responseMessage = 200 \<or> responseStatusCode responseMessage = 206)
           \<and> fchflags_done sys 0 \<and> ftruncate_done sys \<and> lseek_done sys SEEK_SET
           \<and> lseek_done sys SEEK_END
           \<and> bytes_written sys (length buffer) = int (length buffer)
           \<and> fchflags_done sys UF_NODUMP \<and> enqueue_result sys = 0
         \<longrightarrow> (\<exists>node' g'.
               stream_get_transaction sys first_read_len stream retryTransaction node g =
                 (0, Some responseMessage, retryTransaction, node', g')
             \<and> file_status node' = WEBDAV_DOWNLOAD_IN_PROGRESS
             \<and> file_flags (file_fd node') = UF_NODUMP
             \<and> file_contents (file_fd node') =
                 (if responseStatusCode responseMessage = 200 then buffer
                  else file_contents (file_fd node) @ buffer)
             \<and> enqueued_downloads g' = enqueued_downloads g @ [(node', ptr)]
             \<and> inUse (gReadStreams g' ! ptr)
             \<and> readStreamRef (gReadStreams g' ! ptr) = Some (stream\<lparr>pending := events\<rparr>)))
      \<and> (responseStatusCode responseMessage \<noteq> 200 \<and> responseStatusCode responseMessage \<noteq> 206
         \<longrightarrow> (\<exists>g'.
               stream_get_transaction sys first_read_len stream retryTransaction node g =
                 (0, Some responseMessage, retryTransaction,
                  node\<lparr>file_status := WEBDAV_DOWNLOAD_FINISHED\<rparr>, g')
             \<and> enqueued_downloads g' = enqueued_downloads g
             \<and> \<not> inUse (gReadStreams g' ! ptr)))"
proof -
  obtain ptr where f: "find_ReadStreamRec (gReadStreams g) 0 None = Some ptr"
    and b: "ptr < length (gReadStreams g)"
    using assms(1) by (rule ready_slot)
  let ?g2 = "update_ReadStreamRec ptr (\<lambda>slot. slot\<lparr>readStreamRef := Some stream\<rparr>)
          (update_ReadStreamRec ptr (\<lambda>slot. slot\<lparr>inUse := True\<rparr>) g)"
  have o: "open_stream_for_transaction sys stream True retryTransaction g =
       (0, Some ptr, retryTransaction, ?g2)"
    using assms(2,3) f
    by (auto simp: open_stream_for_transaction_def calls_succeed_def get_ReadStreamRec_def)
  have up: "\<not> connection_down g" "buffer_allocated sys"
    using assms(1,2) by (simp_all add: ready_def calls_succeed_def)
  have page: "length buffer = first_read_len \<and> \<not> at_end events"
    using read_first_background [OF assms(4)] by simp
  let ?status = "responseStatusCode responseMessage"
  let ?g3 = "update_ReadStreamRec ptr
               (\<lambda>slot. slot\<lparr>readStreamRef := Some (stream\<lparr>pending := events\<rparr>),
                           connectionClose := connection_close_requested responseMessage\<rparr>)
               (?g2\<lparr>connectionstate := WEBDAV_CONNECTION_UP\<rparr>)"
  have handoff: "\<exists>node' g'.
               stream_get_transaction sys first_read_len stream retryTransaction node g =
                 (0, Some responseMessage, retryTransaction, node', g')
             \<and> file_status node' = WEBDAV_DOWNLOAD_IN_PROGRESS
             \<and> file_flags (file_fd node') = UF_NODUMP
             \<and> file_contents (file_fd node') =
                 (if ?status = 200 then buffer else file_contents (file_fd node) @ buffer)
             \<and> enqueued_downloads g' = enqueued_downloads g @ [(node', ptr)]
             \<and> inUse (gReadStreams g' ! ptr)
             \<and> readStreamRef (gReadStreams g' ! ptr) = Some (stream\<lparr>pending := events\<rparr>)"
    if st: "?status = 200 \<or> ?status = 206"
      and calls: "fchflags_done sys 0" "ftruncate_done sys" "lseek_done sys SEEK_SET"
        "lseek_done sys SEEK_END" "bytes_written sys (length buffer) = int (length buffer)"
        "fchflags_done sys UF_NODUMP" "enqueue_result sys = 0"
  proof -
    let ?fd = "\<lparr>file_contents = (if ?status = 200 then buffer
                                  else file_contents (file_fd node) @ buffer),
                file_offset = (if ?status = 200 then length buffer
                               else length (file_contents (file_fd node)) + length buffer),
                file_flags = 0\<rparr>"
    have c: "cache_first_read sys ?status buffer True (file_fd node) = (True, True, ?fd)"
      using st calls cache_first_read_200 [of sys buffer True "file_fd node"]
        cache_first_read_206 [of sys buffer True "file_fd node"] by auto
    let ?node' = "node\<lparr>file_fd := ?fd\<lparr>file_flags := UF_NODUMP\<rparr>,
                       file_status := WEBDAV_DOWNLOAD_IN_PROGRESS\<rparr>"
    let ?g' = "?g3\<lparr>enqueued_downloads := enqueued_downloads ?g3 @ [(?node', ptr)]\<rparr>"
    have run: "stream_get_transaction sys first_read_len stream retryTransaction node g =
                 (0, Some responseMessage, retryTransaction, ?node', ?g')"
      unfolding stream_get_transaction_def
      using calls(6,7)
      by (simp add: up o assms(4,5) c Let_def fchflags_def del: read_first.simps)
    have "inUse (gReadStreams ?g' ! ptr)"
      "readStreamRef (gReadStreams ?g' ! ptr) = Some (stream\<lparr>pending := events\<rparr>)"
      "enqueued_downloads ?g' = enqueued_downloads g @ [(?node', ptr)]"
      using b by simp_all
    then show ?thesis using run by (intro exI [of _ ?node'] exI [of _ ?g']) simp
  qed
  have finished: "\<exists>g'.
               stream_get_transaction sys first_read_len stream retryTransaction node g =
                 (0, Some responseMessage, retryTransaction,
                  node\<lparr>file_status := WEBDAV_DOWNLOAD_FINISHED\<rparr>, g')
             \<and> enqueued_downloads g' = enqueued_downloads g
             \<and> \<not> inUse (gReadStreams g' ! ptr)"
    if st: "?status \<noteq> 200" "?status \<noteq> 206"
  proof -
    have c: "cache_first_read sys ?status buffer True (file_fd node) = (True, False, file_fd node)"
      using st by (simp add: cache_first_read_other)
    let ?g' = "release_ReadStreamRec ptr
        (if connection_close_requested responseMessage
         then update_ReadStreamRec ptr (\<lambda>slot. slot\<lparr>readStreamRef := None\<rparr>) ?g3 else ?g3)"
    have run: "stream_get_transaction sys first_read_len stream retryTransaction node g =
                 (0, Some responseMessage, retryTransaction,
                  node\<lparr>file_status := WEBDAV_DOWNLOAD_FINISHED\<rparr>, ?g')"
      unfolding stream_get_transaction_def
      by (simp add: up o assms(4,5) c Let_def del: read_first.simps)
    have "\<not> inUse (gReadStreams ?g' ! ptr)"
      using b by (intro released_slot) simp
    moreover have "enqueued_downloads ?g' = enqueued_downloads g" by simp
    ultimately show ?thesis using run by blast
  qed
  show ?thesis
    using f b page handoff finished by (intro exI [of _ ptr]) blast
qed

lemma server_response_fields:
  "open_error (server_response status body) = None"
  "pending (server_response status body) = [ReadData body]"
  "responseHeader (server_response status body)
     = Some \<lparr>responseStatusCode = status, headerFields = []\<rparr>"
  by (simp_all add: server_response_def)

lemma every_call_succeeds_cache:
  "fchflags_done every_call_succeeds flags" "ftruncate_done every_call_succeeds"
  "lseek_done every_call_succeeds wh" "bytes_written every_call_succeeds n = int n"
  "enqueue_result every_call_succeeds = 0"
  by (simp_all add: every_call_succeeds_def)


lemma long_body:
  "read_first 4 (pending (server_response status [1, 2, 3, 4, 5, 6])) []
     = FirstRead [1, 2, 3, 4] [ReadData [5, 6]] True"
  by (simp add: server_response_fields at_end_def)

lemma idle_slot: "find_ReadStreamRec (gReadStreams idle_state) 0 None = Some ptr \<Longrightarrow> ptr = 0"
  by (simp add: idle_state_def)

lemma idle_queue: "enqueued_downloads idle_state = []"
  by (simp add: idle_state_def)

text \<open>
  The theorem at a response of six bytes read four at a time: with status 200 the
  download is handed over with slot 0; with status 304 it is not.
\<close>

theorem download_handed_off_witness:
  "(\<exists>node' g'.
      stream_get_transaction every_call_succeeds 4 (server_response 200 [1, 2, 3, 4, 5, 6]) True
          fresh_node idle_state
        = (0, Some \<lparr>responseStatusCode = 200, headerFields = []\<rparr>, True, node', g')
      \<and> file_status node' = WEBDAV_DOWNLOAD_IN_PROGRESS
      \<and> file_flags (file_fd node') = UF_NODUMP
      \<and> file_contents (file_fd node') = [1, 2, 3, 4]
      \<and> enqueued_downloads g' = [(node', 0)]
      \<and> inUse (gReadStreams g' ! 0)
      \<and> readStreamRef (gReadStreams g' ! 0)
          = Some ((server_response 200 [1, 2, 3, 4, 5, 6])\<lparr>pending := [ReadData [5, 6]]\<rparr>))
   \<and> (\<exists>g'.
      stream_get_transaction every_call_succeeds 4 (server_response 304 [1, 2, 3, 4, 5, 6]) True
          fresh_node idle_state
        = (0, Some \<lparr>responseStatusCode = 304, headerFields = []\<rparr>, True,
           fresh_node\<lparr>file_status := WEBDAV_DOWNLOAD_FINISHED\<rparr>, g')
      \<and> enqueued_downloads g' = []
      \<and> \<not> inUse (gReadStreams g' ! 0))"
proof -
  have s200: "responseStatusCode \<lparr>responseStatusCode = 200, headerFields = []\<rparr> = 200"
    and s304: "responseStatusCode \<lparr>responseStatusCode = 304, headerFields = []\<rparr> = 304"
    by simp_all
  have is200: "(if (200::nat) = 200 then x else y) = x" for x y :: "UInt8 list"
    by simp
  note at200 = download_handed_off [OF fixture_facts(1,2) server_response_fields(1)
      long_body [of 200] server_response_fields(3),
      where retryTransaction = True and node = fresh_node]
  obtain ptr where slot: "find_ReadStreamRec (gReadStreams idle_state) 0 None = Some ptr"
    and imp: "(responseStatusCode \<lparr>responseStatusCode = 200, headerFields = []\<rparr> = 200
               \<or> responseStatusCode \<lparr>responseStatusCode = 200, headerFields = []\<rparr> = 206)
           \<and> fchflags_done every_call_succeeds 0 \<and> ftruncate_done every_call_succeeds
           \<and> lseek_done every_call_succeeds SEEK_SET
           \<and> lseek_done every_call_succeeds SEEK_END
           \<and> bytes_written every_call_succeeds (length [1, 2, 3, 4 :: UInt8])
               = int (length [1, 2, 3, 4 :: UInt8])
           \<and> fchflags_done every_call_succeeds UF_NODUMP \<and> enqueue_result every_call_succeeds = 0
         \<longrightarrow> (\<exists>node' g'.
               stream_get_transaction every_call_succeeds 4
                   (server_response 200 [1, 2, 3, 4, 5, 6]) True fresh_node idle_state =
                 (0, Some \<lparr>responseStatusCode = 200, headerFields = []\<rparr>, True, node', g')
             \<and> file_status node' = WEBDAV_DOWNLOAD_IN_PROGRESS
             \<and> file_flags (file_fd node') = UF_NODUMP
             \<and> file_contents (file_fd node') =
                 (if responseStatusCode \<lparr>responseStatusCode = 200, headerFields = []\<rparr> = 200
                  then [1, 2, 3, 4]
                  else file_contents (file_fd fresh_node) @ [1, 2, 3, 4])
             \<and> enqueued_downloads g' = enqueued_downloads idle_state @ [(node', ptr)]
             \<and> inUse (gReadStreams g' ! ptr)
             \<and> readStreamRef (gReadStreams g' ! ptr)
                 = Some ((server_response 200 [1, 2, 3, 4, 5, 6])\<lparr>pending := [ReadData [5, 6]]\<rparr>))"
    using at200 by (elim exE conjE)
  have calls: "(responseStatusCode \<lparr>responseStatusCode = 200, headerFields = []\<rparr> = 200
               \<or> responseStatusCode \<lparr>responseStatusCode = 200, headerFields = []\<rparr> = 206)
           \<and> fchflags_done every_call_succeeds 0 \<and> ftruncate_done every_call_succeeds
           \<and> lseek_done every_call_succeeds SEEK_SET
           \<and> lseek_done every_call_succeeds SEEK_END
           \<and> bytes_written every_call_succeeds (length [1, 2, 3, 4 :: UInt8])
               = int (length [1, 2, 3, 4 :: UInt8])
           \<and> fchflags_done every_call_succeeds UF_NODUMP \<and> enqueue_result every_call_succeeds = 0"
    by (simp add: every_call_succeeds_cache)
  have p0: "ptr = 0" using slot by (rule idle_slot)
  note first = imp [rule_format, OF calls, unfolded s200 is200 idle_queue append_Nil p0]
  note at304 = download_handed_off [OF fixture_facts(1,2) server_response_fields(1)
      long_body [of 304] server_response_fields(3),
      where retryTransaction = True and node = fresh_node]
  obtain ptr' where slot': "find_ReadStreamRec (gReadStreams idle_state) 0 None = Some ptr'"
    and imp': "responseStatusCode \<lparr>responseStatusCode = 304, headerFields = []\<rparr> \<noteq> 200
           \<and> responseStatusCode \<lparr>responseStatusCode = 304, headerFields = []\<rparr> \<noteq> 206
         \<longrightarrow> (\<exists>g'.
               stream_get_transaction every_call_succeeds 4
                   (server_response 304 [1, 2, 3, 4, 5, 6]) True fresh_node idle_state =
                 (0, Some \<lparr>responseStatusCode = 304, headerFields = []\<rparr>, True,
                  fresh_node\<lparr>file_status := WEBDAV_DOWNLOAD_FINISHED\<rparr>, g')
             \<and> enqueued_downloads g' = enqueued_downloads idle_state
             \<and> \<not> inUse (gReadStreams g' ! ptr'))"
    using at304 by (elim exE conjE)
  have other: "responseStatusCode \<lparr>responseStatusCode = 304, headerFields = []\<rparr> \<noteq> 200
           \<and> responseStatusCode \<lparr>responseStatusCode = 304, headerFields = []\<rparr> \<noteq> 206"
    by simp
  have p0': "ptr' = 0" using slot' by (rule idle_slot)
  note second = imp' [rule_format, OF other, unfolded idle_queue p0']
  show ?thesis using first second by (rule conjI)
qed

text \<open>
  Claim C3 as stated fails at an error page longer than the first read: six bytes with
  status 404 read four at a time. Bytes remain after the first read, yet the download
  status is finished, nothing is queued, and slot 0 is free again.
\<close>

theorem error_page_not_handed_off:
  "read_first 4 (pending (server_response 404 [1, 2, 3, 4, 5, 6])) []
     = FirstRead [1, 2, 3, 4] [ReadData [5, 6]] True
   \<and> stream_get_transaction every_call_succeeds 4 (server_response 404 [1, 2, 3, 4, 5, 6]) True
          fresh_node idle_state
     = (0, Some \<lparr>responseStatusCode = 404, headerFields = []\<rparr>, True,
        fresh_node\<lparr>file_status := WEBDAV_DOWNLOAD_FINISHED\<rparr>,
        idle_state\<lparr>gReadStreams :=
          [\<lparr>inUse = False,
            readStreamRef = Some ((server_response 404 [1, 2, 3, 4, 5, 6])
                                     \<lparr>pending := [ReadData [5, 6]]\<rparr>),
            connectionClose = False\<rparr>,
           \<lparr>inUse = False, readStreamRef = None, connectionClose = False\<rparr>]\<rparr>)
   \<and> enqueued_downloads idle_state = []"
  by (simp add: stream_get_transaction_def open_stream_for_transaction_def get_ReadStreamRec_def
      update_ReadStreamRec_def release_ReadStreamRec_def cache_first_read_def
      connection_down_def connection_close_requested_def CFHTTPMessageCopyHeaderFieldValue_def
      server_response_def every_call_succeeds_def idle_state_def fresh_node_def at_end_def Let_def)

subsection \<open>create_cfurl_from_node\<close>

lemma c_string_idem: "c_string (c_string s) = c_string s"
  by (simp add: c_string_def)







subsection \<open>network_unlock\<close>

text \<open>
  Nothing below \<^verbatim>\<open>send_transaction\<close> touches the record of the calls to the
  authentication cache.
\<close>

lemma HandleSSLErrors_globals:
  fixes g :: "'a globals_scheme"
  assumes "HandleSSLErrors dict_created helper streamError g = (result, g')"
  shows "authcache_applied g' = authcache_applied g"
    and "authcache_validated g' = authcache_validated g"
  using assms
  by (auto simp: HandleSSLErrors_def certificate_exception_def ConfirmCertificate_def Let_def
      split: if_splits option.splits)

lemma transport_error_globals:
  assumes "transport_error streamError retryTransaction g = (result, retryTransaction', g')"
  shows "authcache_applied g' = authcache_applied g"
    and "authcache_validated g' = authcache_validated g"
  using assms by (auto simp: transport_error_def split: if_splits)

lemma get_ReadStreamRec_globals:
  assumes "get_ReadStreamRec g = (ptr, g')"
  shows "authcache_applied g' = authcache_applied g"
    and "authcache_validated g' = authcache_validated g"
  using assms by (auto simp: get_ReadStreamRec_def split: option.splits)

lemma open_stream_globals:
  assumes "open_stream_for_transaction sys stream auto_redirect retryTransaction g
             = (result, ptr, retryTransaction', g')"
  shows "authcache_applied g' = authcache_applied g \<and> authcache_validated g' = authcache_validated g"
proof -
  obtain slot g1 where get: "get_ReadStreamRec g = (slot, g1)"
    by (cases "get_ReadStreamRec g")
  note g1 = get_ReadStreamRec_globals [OF get]
  show ?thesis
  proof (cases "stream_created sys \<and> \<not> (auto_redirect \<and> \<not> autoredirect_set sys) \<and> proxy_set sys")
    case False
    then have "g' = g" using assms
      by (simp add: open_stream_for_transaction_def split: if_splits)
    then show ?thesis by simp
  next
    case True
    note created = True
    show ?thesis
    proof (cases slot)
      case None
      then have "g' = g1" using assms created get
        by (simp add: open_stream_for_transaction_def)
      then show ?thesis using g1 by simp
    next
      case (Some theReadStreamRec)
      note leased = Some
      show ?thesis
      proof (cases "connection_number_set sys")
        case False
        then have "g' = release_ReadStreamRec theReadStreamRec g1"
          using assms created get leased by (simp add: open_stream_for_transaction_def)
        then show ?thesis using g1 by simp
      next
        case True
        note numbered = True
        show ?thesis
        proof (cases "open_error stream")
          case None
          then have "g' = update_ReadStreamRec theReadStreamRec
              (\<lambda>slot. slot\<lparr>readStreamRef := Some stream\<rparr>) g1"
            using assms created get leased numbered by (simp add: open_stream_for_transaction_def)
          then show ?thesis using g1 by simp
        next
          case (Some streamError)
          obtain r2 g2 where h: "HandleSSLErrors (dictionary_created sys) (certificate_accepted sys)
              streamError g1 = (r2, g2)"
            by (cases "HandleSSLErrors (dictionary_created sys) (certificate_accepted sys) streamError g1")
          obtain r3 t3 g3 where t: "transport_error streamError retryTransaction g2 = (r3, t3, g3)"
            by (cases "transport_error streamError retryTransaction g2")
          have g2: "authcache_applied g2 = authcache_applied g"
            "authcache_validated g2 = authcache_validated g"
            using HandleSSLErrors_globals [OF h] g1 by simp_all
          have g3: "authcache_applied g3 = authcache_applied g"
            "authcache_validated g3 = authcache_validated g"
            using transport_error_globals [OF t] g2 by simp_all
          have "g' = release_ReadStreamRec theReadStreamRec g3
              \<or> g' = release_ReadStreamRec theReadStreamRec g2"
            using assms created get leased numbered Some h t
            by (auto simp: open_stream_for_transaction_def split: if_splits)
          then show ?thesis using g2 g3 by auto
        qed
      qed
    qed
  qed
qed

lemma stream_transaction_globals:
  assumes "stream_transaction sys stream auto_redirect retryTransaction g
             = (result, buffer, response, retryTransaction', g')"
  shows "authcache_applied g' = authcache_applied g \<and> authcache_validated g' = authcache_validated g"
proof (cases "connection_down g")
  case True
  then have "g' = g" using assms by (simp add: stream_transaction_def)
  then show ?thesis by simp
next
  case False
  note up = False
  obtain r1 slot t1 g1 where opened: "open_stream_for_transaction sys stream auto_redirect
      retryTransaction g = (r1, slot, t1, g1)"
    by (cases "open_stream_for_transaction sys stream auto_redirect retryTransaction g")
  note g1 = open_stream_globals [OF opened]
  show ?thesis
  proof (cases slot)
    case None
    then have "g' = g1" using assms up opened by (simp add: stream_transaction_def)
    then show ?thesis using g1 by simp
  next
    case (Some readStreamRecPtr)
    note leased = Some
    show ?thesis
    proof (cases "buffer_allocated sys")
      case False
      then have "g' = close_and_release readStreamRecPtr g1"
        using assms up opened leased by (simp add: stream_transaction_def)
      then show ?thesis using g1 by simp
    next
      case True
      note allocated = True
      show ?thesis
      proof (cases "read_body sys (pending stream) BODY_BUFFER_SIZE []")
        case (ReallocFailed events)
        then have "g' = close_and_release readStreamRecPtr g1"
          using assms up opened leased allocated
          by (simp add: stream_transaction_def del: read_body.simps)
        then show ?thesis using g1 by simp
      next
        case (BodyRead body events)
        then have "g' = close_and_release readStreamRecPtr g1
            \<or> (\<exists>responseMessage. g' = finish_transaction readStreamRecPtr
                  (stream\<lparr>pending := events\<rparr>) responseMessage g1)"
          using assms up opened leased allocated
          by (auto simp: stream_transaction_def simp del: read_body.simps split: option.splits)
        then show ?thesis using g1 by (auto simp: finish_transaction_def)
      next
        case (BodyReadFailed streamError events)
        obtain r2 g2 where h: "HandleSSLErrors (dictionary_created sys) (certificate_accepted sys)
            streamError g1 = (r2, g2)"
          by (cases "HandleSSLErrors (dictionary_created sys) (certificate_accepted sys) streamError g1")
        obtain r3 t3 g3 where t: "transport_error streamError t1 g2 = (r3, t3, g3)"
          by (cases "transport_error streamError t1 g2")
        have g2: "authcache_applied g2 = authcache_applied g"
          "authcache_validated g2 = authcache_validated g"
          using HandleSSLErrors_globals [OF h] g1 by simp_all
        have g3: "authcache_applied g3 = authcache_applied g"
          "authcache_validated g3 = authcache_validated g"
          using transport_error_globals [OF t] g2 by simp_all
        have "g' = close_and_release readStreamRecPtr g3
            \<or> g' = close_and_release readStreamRecPtr g2"
          using assms up opened leased allocated BodyReadFailed h t
          by (auto simp: stream_transaction_def simp del: read_body.simps split: if_splits)
        then show ?thesis using g2 g3 by auto
      qed
    qed
  qed
qed

lemma transaction_loop_applied:
  assumes "transaction_loop attempts uid message auto_redirect loop_state g
             = Some (error, statusCode, responseBuffer, responseRef, g')"
  shows "\<exists>k. k \<le> length attempts
           \<and> authcache_applied g' = authcache_applied g @ replicate k (uid, message)
           \<and> authcache_validated g' = authcache_validated g"
  using assms
proof (induction attempts arbitrary: loop_state g)
  case Nil
  then show ?case by simp
next
  case (Cons a attempts)
  obtain status0 buffer0 response0 retry0 where st: "loop_state = (status0, buffer0, response0, retry0)"
    by (cases loop_state)
  let ?g1 = "g\<lparr>authcache_applied := authcache_applied g @ [(uid, message)]\<rparr>"
  obtain r b resp retry g2 where tx: "stream_transaction (attempt_outcomes a) (attempt_stream a)
      auto_redirect retry0 ?g1 = (r, b, resp, retry, g2)"
    by (cases "stream_transaction (attempt_outcomes a) (attempt_stream a) auto_redirect retry0 ?g1")
  have g2: "authcache_applied g2 = authcache_applied g @ [(uid, message)]"
    "authcache_validated g2 = authcache_validated g"
    using stream_transaction_globals [OF tx] by simp_all
  have one: "authcache_applied g @ [(uid, message)] @ replicate k (uid, message)
      = authcache_applied g @ replicate (Suc k) (uid, message)" for k
    by simp
  consider (stop0) "g' = g" | (stop1) "g' = ?g1" | (stop2) "g' = g2"
    | (again) loop_state' where "transaction_loop attempts uid message auto_redirect loop_state' g2
             = Some (error, statusCode, responseBuffer, responseRef, g')"
    using Cons.prems st tx
    by (auto simp: Let_def split: if_splits simp del: transaction_loop.simps(2))
      (subst (asm) transaction_loop.simps, auto simp: Let_def split: if_splits)+
  then show ?case
  proof cases
    case stop0
    then have "authcache_applied g' = authcache_applied g @ replicate 0 (uid, message)" by simp
    then show ?thesis using stop0 by (intro exI [of _ 0]) simp
  next
    case stop1
    then have "authcache_applied g' = authcache_applied g @ replicate 1 (uid, message)" by simp
    then show ?thesis using stop1 by (intro exI [of _ 1]) simp
  next
    case stop2
    then have "authcache_applied g' = authcache_applied g @ replicate 1 (uid, message)"
      using g2 by simp
    then show ?thesis using stop2 g2 by (intro exI [of _ 1]) simp
  next
    case again
    from Cons.IH [OF this] obtain k where k: "k \<le> length attempts"
      "authcache_applied g' = authcache_applied g2 @ replicate k (uid, message)"
      "authcache_validated g' = authcache_validated g2" by blast
    then have "authcache_applied g' = authcache_applied g @ replicate (Suc k) (uid, message)"
      using g2 one by simp
    then show ?thesis using k g2 by (intro exI [of _ "Suc k"]) simp
  qed
qed

lemma send_transaction_applied:
  assumes "send_transaction attempts uid url verb bodyData headers auto_redirect g
             = Some (error, responseBuffer, responseRef, g')"
  shows "\<exists>k. k \<le> length attempts
           \<and> authcache_applied g' = authcache_applied g
               @ replicate k (uid, \<lparr>requestMethod = verb, requestURL = url,
                    requestHeaders =
                      (''User-Agent'', userAgentHeaderValue g)
                      # (case X_Source_Id_HeaderValue g of
                           None \<Rightarrow> []
                         | Some source_id \<Rightarrow> [(''X-Source-Id'', source_id)])
                      @ headers,
                    requestBody = bodyData\<rparr>)"
proof -
  let ?message = "\<lparr>requestMethod = verb, requestURL = url,
                    requestHeaders =
                      (''User-Agent'', userAgentHeaderValue g)
                      # (case X_Source_Id_HeaderValue g of
                           None \<Rightarrow> []
                         | Some source_id \<Rightarrow> [(''X-Source-Id'', source_id)])
                      @ headers,
                    requestBody = bodyData\<rparr>"
  obtain e s b r g1 where loop: "transaction_loop attempts uid ?message auto_redirect
      (0, None, None, True) g = Some (e, s, b, r, g1)"
    and g': "authcache_applied g' = authcache_applied g1"
    using assms
    by (auto simp: send_transaction_def Let_def split: option.splits if_splits)
  from transaction_loop_applied [OF loop] show ?thesis using g' by auto
qed

lemma network_unlock_returned:
  assumes "network_unlock lib header_created attempts node g = Some (error, node', g')"
  shows "node' = node\<lparr>file_locktoken := None, file_locktoken_uid := 0\<rparr>
      \<and> (\<exists>k urlRef. k \<le> length attempts
            \<and> authcache_applied g' = authcache_applied g
                @ replicate k (file_locktoken_uid node,
                               unlock_request g urlRef (file_locktoken node))
            \<and> (0 < k \<longrightarrow> header_created
                  \<and> create_cfurl_from_node lib node None 0 = Some urlRef))"
proof (cases "create_cfurl_from_node lib node None 0")
  case None
  then have "node' = node\<lparr>file_locktoken := None, file_locktoken_uid := 0\<rparr>" "g' = g"
    using assms by (simp_all add: network_unlock_def Let_def)
  then show ?thesis by (auto intro: exI [of _ 0])
next
  case (Some urlRef)
  show ?thesis
  proof (cases header_created)
    case False
    then have "node' = node\<lparr>file_locktoken := None, file_locktoken_uid := 0\<rparr>" "g' = g"
      using assms Some by (simp_all add: network_unlock_def Let_def)
    then show ?thesis by (auto intro: exI [of _ 0])
  next
    case True
    let ?headers = "[(''Accept'', ''*/*''),
        (''Lock-Token'', ''<'' @ (case file_locktoken node of Some token \<Rightarrow> token
                                  | None \<Rightarrow> ''(null)'') @ ''>'')]"
    obtain b r where sent: "send_transaction attempts (file_locktoken_uid node) urlRef ''UNLOCK''
        None ?headers False g = Some (error, b, r, g')"
      and node': "node' = node\<lparr>file_locktoken := None, file_locktoken_uid := 0\<rparr>"
      using assms Some True
      by (auto simp: network_unlock_def Let_def split: option.splits)
    from send_transaction_applied [OF sent] obtain k where "k \<le> length attempts"
      "authcache_applied g' = authcache_applied g
         @ replicate k (file_locktoken_uid node, unlock_request g urlRef (file_locktoken node))"
      by (auto simp: unlock_request_def)
    then show ?thesis using node' Some True by blast
  qed
qed

lemma network_unlock_decided_log:
  assumes "create_cfurl_from_node lib node None 0 = Some urlRef" "header_created"
    and "message_created a" "authcache_result a = 0"
    and "stream_transaction (attempt_outcomes a) (attempt_stream a) False True
           (g\<lparr>authcache_applied := authcache_applied g
                @ [(file_locktoken_uid node, unlock_request g urlRef (file_locktoken node))]\<rparr>)
         = (0, responseBuffer, Some response, retryTransaction, g1)"
    and "(of_nat (responseStatusCode response) :: 32 word) \<noteq> 401"
    and "(of_nat (responseStatusCode response) :: 32 word) \<noteq> 407"
  shows "\<exists>g'. network_unlock lib header_created (a # attempts) node g
        = Some (translate_status_to_error (of_nat (responseStatusCode response)),
                node\<lparr>file_locktoken := None, file_locktoken_uid := 0\<rparr>, g')
      \<and> authcache_applied g' = authcache_applied g1"
  using assms
  by (auto simp: network_unlock_def send_transaction_def unlock_request_def Let_def errno_defs)

lemma network_unlock_failed:
  assumes "create_cfurl_from_node lib node None 0 = Some urlRef" "header_created"
    and "message_created a" "authcache_result a = 0"
    and "stream_transaction (attempt_outcomes a) (attempt_stream a) False True
           (g\<lparr>authcache_applied := authcache_applied g
                @ [(file_locktoken_uid node, unlock_request g urlRef (file_locktoken node))]\<rparr>)
         = (result, responseBuffer, response, retryTransaction, g1)"
    and "result \<noteq> 0" "result \<noteq> EAGAIN"
  shows "network_unlock lib header_created (a # attempts) node g
        = Some (result, node\<lparr>file_locktoken := None, file_locktoken_uid := 0\<rparr>, g1)"
  using assms
  by (auto simp: network_unlock_def send_transaction_def unlock_request_def Let_def errno_defs)

lemma network_unlock_not_sent:
  assumes "create_cfurl_from_node lib node None 0 = None \<or> \<not> header_created"
  shows "network_unlock lib header_created attempts node g
      = Some (EIO, node\<lparr>file_locktoken := None, file_locktoken_uid := 0\<rparr>, g)"
  using assms by (auto simp: network_unlock_def Let_def split: option.splits)

text \<open>
  Claim C10. Whenever \<^verbatim>\<open>network_unlock\<close> returns, the node is the node given with
  \<^verbatim>\<open>file_locktoken\<close> NULL and \<^verbatim>\<open>file_locktoken_uid\<close> 0, and every call of
  \<^verbatim>\<open>authcache_apply\<close> made meanwhile was for the uid that the node held as the
  owner of the lock, with the UNLOCK request on the URL of the node that carries the
  lock token of the node. The function returns EIO at once, and no request is made, when
  the URL or the string of the Lock-Token header cannot be made. When the first
  transaction fails with an error other than EAGAIN, the function returns that error;
  when it succeeds with a status other than 401 and 407, the function returns the
  translation of the status. In each case the lock token and the uid are cleared.
\<close>

theorem network_unlock_clears_lock:
  "(network_unlock lib header_created attempts node g = Some (error, node', g')
      \<longrightarrow> node' = node\<lparr>file_locktoken := None, file_locktoken_uid := 0\<rparr>
          \<and> file_locktoken node' = None \<and> file_locktoken_uid node' = 0
          \<and> (\<exists>k urlRef. k \<le> length attempts
                \<and> authcache_applied g' = authcache_applied g
                    @ replicate k (file_locktoken_uid node,
                                   unlock_request g urlRef (file_locktoken node))
                \<and> (0 < k \<longrightarrow> header_created
                      \<and> create_cfurl_from_node lib node None 0 = Some urlRef)))
   \<and> (create_cfurl_from_node lib node None 0 = None \<or> \<not> header_created
      \<longrightarrow> network_unlock lib header_created attempts node g
            = Some (EIO, node\<lparr>file_locktoken := None, file_locktoken_uid := 0\<rparr>, g))
   \<and> (create_cfurl_from_node lib node None 0 = Some url \<and> header_created
        \<and> message_created a \<and> authcache_result a = 0
        \<and> stream_transaction (attempt_outcomes a) (attempt_stream a) False True
             (g\<lparr>authcache_applied := authcache_applied g
                  @ [(file_locktoken_uid node, unlock_request g url (file_locktoken node))]\<rparr>)
           = (result, responseBuffer, response, retryTransaction, g1)
      \<longrightarrow> (result \<noteq> 0 \<and> result \<noteq> EAGAIN
           \<longrightarrow> network_unlock lib header_created (a # rest) node g
                 = Some (result, node\<lparr>file_locktoken := None, file_locktoken_uid := 0\<rparr>, g1))
         \<and> (\<forall>answer. result = 0 \<and> response = Some answer
                \<and> (of_nat (responseStatusCode answer) :: 32 word) \<noteq> 401
                \<and> (of_nat (responseStatusCode answer) :: 32 word) \<noteq> 407
           \<longrightarrow> (\<exists>g'. network_unlock lib header_created (a # rest) node g
                   = Some (translate_status_to_error (of_nat (responseStatusCode answer)),
                           node\<lparr>file_locktoken := None, file_locktoken_uid := 0\<rparr>, g')
                 \<and> authcache_applied g' = authcache_applied g1)))"
proof (intro conjI impI allI)
  assume run: "network_unlock lib header_created attempts node g = Some (error, node', g')"
  note r = network_unlock_returned [OF run]
  show "node' = node\<lparr>file_locktoken := None, file_locktoken_uid := 0\<rparr>"
    using r by blast
  then show "file_locktoken node' = None" "file_locktoken_uid node' = 0"
    by simp_all
  show "\<exists>k urlRef. k \<le> length attempts
                \<and> authcache_applied g' = authcache_applied g
                    @ replicate k (file_locktoken_uid node,
                                   unlock_request g urlRef (file_locktoken node))
                \<and> (0 < k \<longrightarrow> header_created
                      \<and> create_cfurl_from_node lib node None 0 = Some urlRef)"
    using r by blast
next
  assume "create_cfurl_from_node lib node None 0 = None \<or> \<not> header_created"
  then show "network_unlock lib header_created attempts node g
            = Some (EIO, node\<lparr>file_locktoken := None, file_locktoken_uid := 0\<rparr>, g)"
    by (rule network_unlock_not_sent)
next
  assume a: "create_cfurl_from_node lib node None 0 = Some url \<and> header_created
        \<and> message_created a \<and> authcache_result a = 0
        \<and> stream_transaction (attempt_outcomes a) (attempt_stream a) False True
             (g\<lparr>authcache_applied := authcache_applied g
                  @ [(file_locktoken_uid node, unlock_request g url (file_locktoken node))]\<rparr>)
           = (result, responseBuffer, response, retryTransaction, g1)"
    and f: "result \<noteq> 0 \<and> result \<noteq> EAGAIN"
  show "network_unlock lib header_created (a # rest) node g
                 = Some (result, node\<lparr>file_locktoken := None, file_locktoken_uid := 0\<rparr>, g1)"
    using a f by (intro network_unlock_failed [of lib node url]) simp_all
next
  fix answer
  assume a: "create_cfurl_from_node lib node None 0 = Some url \<and> header_created
        \<and> message_created a \<and> authcache_result a = 0
        \<and> stream_transaction (attempt_outcomes a) (attempt_stream a) False True
             (g\<lparr>authcache_applied := authcache_applied g
                  @ [(file_locktoken_uid node, unlock_request g url (file_locktoken node))]\<rparr>)
           = (result, responseBuffer, response, retryTransaction, g1)"
    and s: "result = 0 \<and> response = Some answer
                \<and> (of_nat (responseStatusCode answer) :: 32 word) \<noteq> 401
                \<and> (of_nat (responseStatusCode answer) :: 32 word) \<noteq> 407"
  show "\<exists>g'. network_unlock lib header_created (a # rest) node g
                   = Some (translate_status_to_error (of_nat (responseStatusCode answer)),
                           node\<lparr>file_locktoken := None, file_locktoken_uid := 0\<rparr>, g')
                 \<and> authcache_applied g' = authcache_applied g1"
    using a s by (intro network_unlock_decided_log [of lib node url]) simp_all
qed

text \<open>
  The theorem at a node locked by uid 501 whose UNLOCK the server answers with 204, and
  at a node whose path the node cache cannot give.
\<close>

theorem network_unlock_clears_lock_witness:
  "(\<exists>g'. network_unlock (example_services (0, ''f'')) True [unlocked_attempt] locked_node idle_state
           = Some (0, locked_node\<lparr>file_locktoken := None, file_locktoken_uid := 0\<rparr>, g')
        \<and> authcache_applied g'
           = [(501, unlock_request idle_state (CFURL ''http://h/dav/f'' None)
                      (Some ''opaquelocktoken:1''))])
   \<and> file_locktoken locked_node = Some ''opaquelocktoken:1''
   \<and> file_locktoken_uid locked_node = 501
   \<and> network_unlock (example_services (ENOENT, [])) True [] locked_node idle_state
       = Some (EIO, locked_node\<lparr>file_locktoken := None, file_locktoken_uid := 0\<rparr>, idle_state)"
proof -
  let ?lib = "example_services (0, ''f'')"
  let ?url = "CFURL ''http://h/dav/f'' None"
  let ?answer = "\<lparr>responseStatusCode = 204, headerFields = []\<rparr>"
  let ?request = "unlock_request idle_state ?url (file_locktoken locked_node)"
  let ?g0 = "idle_state\<lparr>authcache_applied := authcache_applied idle_state
                @ [(file_locktoken_uid locked_node, ?request)]\<rparr>"
  have token: "file_locktoken locked_node = Some ''opaquelocktoken:1''"
    and uid: "file_locktoken_uid locked_node = 501"
    by (simp_all add: locked_node_def)
  have url: "create_cfurl_from_node ?lib locked_node None 0 = Some ?url"
    by (simp add: create_cfurl_from_node_def example_services_def percent_escape_def
        c_string_def cur_def char_defs)
  have no_url: "create_cfurl_from_node (example_services (ENOENT, [])) locked_node None 0 = None"
    by (simp add: create_cfurl_from_node_def example_services_def ENOENT_def)
  have attempt: "message_created unlocked_attempt" "authcache_result unlocked_attempt = 0"
    "attempt_outcomes unlocked_attempt = every_call_succeeds"
    "attempt_stream unlocked_attempt = server_response 204 []"
    by (simp_all add: unlocked_attempt_def)
  have body: "read_body every_call_succeeds (pending (server_response 204 [])) BODY_BUFFER_SIZE []
      = BodyRead [] []"
    by (simp add: server_response_fields)
  have ready0: "ready ?g0"
    using fixture_facts(1) by simp
  obtain g1 where tx: "stream_transaction every_call_succeeds (server_response 204 []) False True ?g0
      = (0, Some [], Some ?answer, True, g1)"
    and g1: "authcache_applied g1 = authcache_applied ?g0"
    using stream_transaction_succeeds [OF ready0 fixture_facts(2) [of False]
        server_response_fields(1) body server_response_fields(3), where retryTransaction = True]
    by blast
  have status: "(of_nat (responseStatusCode ?answer) :: 32 word) \<noteq> 401"
    "(of_nat (responseStatusCode ?answer) :: 32 word) \<noteq> 407"
    by simp_all
  have ok: "translate_status_to_error (of_nat (responseStatusCode ?answer)) = 0"
    by (simp add: translate_status_to_error_def)
  have tx': "stream_transaction (attempt_outcomes unlocked_attempt) (attempt_stream unlocked_attempt)
      False True ?g0 = (0, Some [], Some ?answer, True, g1)"
    using tx by (simp only: attempt)
  note sent = network_unlock_clears_lock [where lib = ?lib and header_created = True
      and node = locked_node and g = idle_state and url = ?url and a = unlocked_attempt
      and rest = "[]" and result = 0 and responseBuffer = "Some []" and response = "Some ?answer"
      and retryTransaction = True and ?g1.0 = g1,
      THEN conjunct2, THEN conjunct2, rule_format, THEN conjunct2, rule_format,
      where answer = ?answer]
  have "\<exists>g'. network_unlock ?lib True [unlocked_attempt] locked_node idle_state
           = Some (translate_status_to_error (of_nat (responseStatusCode ?answer)),
                   locked_node\<lparr>file_locktoken := None, file_locktoken_uid := 0\<rparr>, g')
        \<and> authcache_applied g' = authcache_applied g1"
    using url attempt(1,2) tx' status by (intro sent) simp_all
  then obtain g' where run: "network_unlock ?lib True [unlocked_attempt] locked_node idle_state
           = Some (0, locked_node\<lparr>file_locktoken := None, file_locktoken_uid := 0\<rparr>, g')"
    and g': "authcache_applied g' = authcache_applied g1"
    unfolding ok by blast
  have "authcache_applied g' = [(501, unlock_request idle_state ?url (Some ''opaquelocktoken:1''))]"
    unfolding g' g1 by (simp add: token uid idle_state_def)
  then have first: "\<exists>g'. network_unlock ?lib True [unlocked_attempt] locked_node idle_state
           = Some (0, locked_node\<lparr>file_locktoken := None, file_locktoken_uid := 0\<rparr>, g')
        \<and> authcache_applied g'
           = [(501, unlock_request idle_state ?url (Some ''opaquelocktoken:1''))]"
    using run by blast
  have last: "network_unlock (example_services (ENOENT, [])) True [] locked_node idle_state
       = Some (EIO, locked_node\<lparr>file_locktoken := None, file_locktoken_uid := 0\<rparr>, idle_state)"
    using network_unlock_clears_lock [where lib = "example_services (ENOENT, [])"
      and header_created = True and node = locked_node and g = idle_state and attempts = "[]",
      THEN conjunct2, THEN conjunct1] no_url by simp
  show ?thesis using first token uid last by (intro conjI)
qed

end
